theory Spec2Isabelle
  imports Main "HOL-Library.Word" "HOL-Library.Sublist" "HOL-Library.AList"
begin

section \<open>JavaScript strings\<close>

text \<open>
  A JavaScript string is a sequence of UTF-16 code units; \<open>length\<close>, \<open>indexOf\<close>,
  \<open>startsWith\<close>, \<open>trim\<close> and the regular expressions of \<open>rule/update_stats.js\<close> all
  work on code units. A character is therefore a 16-bit word, and a string literal of the
  source that is plain ASCII is written \<open>ascii ''...''\<close>.
\<close>

type_synonym jschar = "16 word"
type_synonym jsstring = "jschar list"

definition ascii :: "string \<Rightarrow> jsstring" where
  "ascii s = map of_char s"

definition LF :: jschar where "LF = 10"
definition CR :: jschar where "CR = 13"

text \<open>
  The characters removed by \<open>String.prototype.trim\<close> and matched by \<open>\s\<close>: the
  WhiteSpace and LineTerminator productions of ECMAScript (TAB, LF, VT, FF, CR, SP, NBSP,
  U+1680, U+2000..U+200A, U+2028, U+2029, U+202F, U+205F, U+3000, U+FEFF).
\<close>

definition isWhiteSpace :: "jschar \<Rightarrow> bool" where
  "isWhiteSpace c =
     (c = 0x9 \<or> c = 0xA \<or> c = 0xB \<or> c = 0xC \<or> c = 0xD \<or> c = 0x20 \<or> c = 0xA0 \<or>
      c = 0x1680 \<or> (0x2000 \<le> c \<and> c \<le> 0x200A) \<or> c = 0x2028 \<or> c = 0x2029 \<or>
      c = 0x202F \<or> c = 0x205F \<or> c = 0x3000 \<or> c = 0xFEFF)"

text \<open>The character class \<open>\d\<close> of a regular expression without the unicode flag.\<close>

definition isDigit :: "jschar \<Rightarrow> bool" where
  "isDigit c = (0x30 \<le> c \<and> c \<le> 0x39)"

definition trim :: "jsstring \<Rightarrow> jsstring" where
  "trim s = rev (dropWhile isWhiteSpace (rev (dropWhile isWhiteSpace s)))"

definition startsWith :: "jsstring \<Rightarrow> jsstring \<Rightarrow> bool" where
  "startsWith s p = (take (length p) s = p)"

text \<open>\<open>s.indexOf(c)\<close> for a one-character search string: the first index, or \<open>-1\<close>.\<close>

fun indexOf :: "jsstring \<Rightarrow> jschar \<Rightarrow> int" where
  "indexOf [] c = - 1"
| "indexOf (x # xs) c =
     (if x = c then 0 else (let i = indexOf xs c in if i = - 1 then - 1 else i + 1))"

text \<open>\<open>s.slice(b, e)\<close>: negative indices count from the end, both ends are clamped.\<close>

definition slice :: "jsstring \<Rightarrow> int \<Rightarrow> int \<Rightarrow> jsstring" where
  "slice s b e =
     (let n = int (length s);
          from = (if b < 0 then max (n + b) 0 else min b n);
          to = (if e < 0 then max (n + e) 0 else min e n)
      in take (nat (to - from)) (drop (nat from) s))"

text \<open>
  \<open>content.split(/\r?\n/)\<close>: the text is cut at every LF, and a CR directly before that
  LF belongs to the separator. The scan goes from left to right, so in \<open>CR CR LF\<close> only
  the second CR is part of the separator. The result is never empty: the empty text
  gives one empty line.
\<close>

fun split_lines :: "jsstring \<Rightarrow> jsstring list" where
  "split_lines [] = [[]]"
| "split_lines (c # cs) =
     (if c = LF then [] # split_lines cs
      else if c = CR \<and> cs \<noteq> [] \<and> hd cs = LF then [] # split_lines (tl cs)
      else (case split_lines cs of
              [] \<Rightarrow> [[c]]
            | l # ls \<Rightarrow> (c # l) # ls))"

text \<open>\<open>lines.join('\n')\<close>.\<close>

fun join_lines :: "jsstring list \<Rightarrow> jsstring" where
  "join_lines [] = []"
| "join_lines [l] = l"
| "join_lines (l # ls) = l @ LF # join_lines ls"

text \<open>
  \<open>String(n)\<close> for a number that is an integer: the decimal digits, with a minus sign
  for a negative one. (JavaScript switches to exponent notation from \<open>10^21\<close> on; the
  counts of this program are numbers of lines of one file.)
\<close>

definition digitChar :: "nat \<Rightarrow> jschar" where
  "digitChar d = 0x30 + of_nat d"

function decimal :: "nat \<Rightarrow> jsstring" where
  "decimal n = (if n < 10 then [digitChar n] else decimal (n div 10) @ [digitChar (n mod 10)])"
  by pat_completeness auto
termination
  by (relation "measure id") auto

declare decimal.simps [simp del]

definition String_of :: "int \<Rightarrow> jsstring" where
  "String_of i = (if i < 0 then 0x2D # decimal (nat (- i)) else decimal (nat i))"

text \<open>\<open>s.padEnd(n, ' ')\<close>: spaces are appended up to length \<open>n\<close>; a longer string is kept.\<close>

definition padEnd :: "jsstring \<Rightarrow> nat \<Rightarrow> jsstring" where
  "padEnd s n = s @ replicate (n - length s) 0x20"

section \<open>Counting the rule entries of a list\<close>

definition isRuleLine :: "jsstring \<Rightarrow> bool" where
  "isRuleLine line =
     (if line = [] then False
      else (let trimmed = trim line in
            if length trimmed = 0 then False
            else if startsWith trimmed (ascii ''#'') then False
            else True))"

text \<open>
  \<open>typeCounts\<close> is an object without prototype used as a dictionary: an association list
  in insertion order. \<open>typeCounts[type] || 0\<close> reads a missing key as \<open>0\<close>.
\<close>

type_synonym typeCounts = "(jsstring \<times> nat) list"

definition count_of :: "typeCounts \<Rightarrow> jsstring \<Rightarrow> nat" where
  "count_of tc k = (case map_of tc k of None \<Rightarrow> 0 | Some n \<Rightarrow> n)"

text \<open>One iteration of the loop of \<open>parseCountsFromList\<close>, on the pair \<open>(typeCounts, total)\<close>.\<close>

definition count_line :: "jsstring \<Rightarrow> typeCounts \<times> nat \<Rightarrow> typeCounts \<times> nat" where
  "count_line line st =
     (if \<not> isRuleLine line then st
      else (let idx = indexOf line 0x2C;
                type = trim (if idx = - 1 then line else slice line 0 idx)
            in if type = [] then st
               else (AList.update type (count_of (fst st) type + 1) (fst st), snd st + 1)))"

definition parseCountsFromList :: "jsstring \<Rightarrow> typeCounts \<times> nat" where
  "parseCountsFromList content = fold count_line (split_lines content) ([], 0)"

text \<open>The vocabulary of the specification, for stating what the counter computes.\<close>

definition is_blank :: "jsstring \<Rightarrow> bool" where
  "is_blank l = (trim l = [])"

definition is_comment :: "jsstring \<Rightarrow> bool" where
  "is_comment l = (case trim l of [] \<Rightarrow> False | c # _ \<Rightarrow> c = 0x23)"

definition entry_line :: "jsstring \<Rightarrow> bool" where
  "entry_line l = (\<not> is_blank l \<and> \<not> is_comment l)"

definition category_token :: "jsstring \<Rightarrow> jsstring" where
  "category_token l = trim (takeWhile (\<lambda>c. c \<noteq> 0x2C) l)"

definition counted_line :: "jsstring \<Rightarrow> bool" where
  "counted_line l = (entry_line l \<and> category_token l \<noteq> [])"

section \<open>Rewriting the header of a list\<close>

record header_params =
  updatedAt :: jsstring
  domainCount :: int
  domainSuffixCount :: int
  total :: int

text \<open>The variables of the first loop of \<open>updateListHeader\<close>.\<close>

record header_scan =
  out :: "jsstring list"
  hasUpdated :: bool
  hasDomain :: bool
  hasDomainSuffix :: bool
  hasTotal :: bool

definition scan_line :: "'a header_params_scheme \<Rightarrow> jsstring \<Rightarrow> header_scan \<Rightarrow> header_scan" where
  "scan_line p line s =
     (if startsWith line (ascii ''# UPDATED:'')
      then s\<lparr>out := out s @ [ascii ''# UPDATED: '' @ updatedAt p], hasUpdated := True\<rparr>
      else if startsWith line (ascii ''# DOMAIN:'')
      then s\<lparr>out := out s @ [ascii ''# DOMAIN: '' @ String_of (domainCount p)], hasDomain := True\<rparr>
      else if startsWith line (ascii ''# DOMAIN-SUFFIX:'')
      then s\<lparr>out := out s @ [ascii ''# DOMAIN-SUFFIX: '' @ String_of (domainSuffixCount p)],
              hasDomainSuffix := True\<rparr>
      else if startsWith line (ascii ''# TOTAL:'')
      then s\<lparr>out := out s @ [ascii ''# TOTAL: '' @ String_of (total p)], hasTotal := True\<rparr>
      else s\<lparr>out := out s @ [line]\<rparr>)"

text \<open>\<open>xs.findIndex(P)\<close>: the first index whose element satisfies \<open>P\<close>, or \<open>-1\<close>.\<close>

fun findIndex :: "('a \<Rightarrow> bool) \<Rightarrow> 'a list \<Rightarrow> int" where
  "findIndex P [] = - 1"
| "findIndex P (x # xs) =
     (if P x then 0 else (let i = findIndex P xs in if i = - 1 then - 1 else i + 1))"

text \<open>
  \<open>xs.splice(start, 0, item)\<close> for \<open>start \<ge> 0\<close>: nothing is removed, and a start beyond
  the end is clamped to the length, so the item is then appended.
\<close>

definition splice_insert :: "'a list \<Rightarrow> nat \<Rightarrow> 'a \<Rightarrow> 'a list" where
  "splice_insert xs start item =
     (let actualStart = min start (length xs)
      in take actualStart xs @ item # drop actualStart xs)"

text \<open>
  The closure \<open>insertHeaderIfMissing\<close> works on \<open>out\<close> and the flag \<open>headerInserted\<close>:
  both are passed in and returned.
\<close>

definition insertHeaderIfMissing ::
  "jsstring list \<times> bool \<Rightarrow> jsstring \<Rightarrow> jsstring \<Rightarrow> jsstring list \<times> bool" where
  "insertHeaderIfMissing st tag line =
     (if snd st then st
      else (let idx = findIndex (\<lambda>l. length (trim l) > 0) (fst st);
                insertAt = (if idx = - 1 then 0 else min (idx + 1) (int (length (fst st))))
            in (splice_insert (fst st) (nat insertAt) line, True)))"

definition updateListHeader_lines :: "jsstring \<Rightarrow> 'a header_params_scheme \<Rightarrow> jsstring list" where
  "updateListHeader_lines content p =
     (let lines = split_lines content;
          s = fold (scan_line p) lines
                \<lparr>out = [], hasUpdated = False, hasDomain = False, hasDomainSuffix = False,
                 hasTotal = False\<rparr>;
          out1 = (if \<not> hasUpdated s
                  then fst (insertHeaderIfMissing (out s, False) (ascii ''UPDATED'')
                              (ascii ''# UPDATED: '' @ updatedAt p))
                  else out s);
          out2 = (if \<not> hasDomain s
                  then splice_insert out1 2 (ascii ''# DOMAIN: '' @ String_of (domainCount p))
                  else out1);
          out3 = (if \<not> hasDomainSuffix s
                  then splice_insert out2 3
                         (ascii ''# DOMAIN-SUFFIX: '' @ String_of (domainSuffixCount p))
                  else out2);
          out4 = (if \<not> hasTotal s
                  then splice_insert out3 4 (ascii ''# TOTAL: '' @ String_of (total p))
                  else out3)
      in out4)"

definition updateListHeader :: "jsstring \<Rightarrow> 'a header_params_scheme \<Rightarrow> jsstring" where
  "updateListHeader content p = join_lines (updateListHeader_lines content p)"

text \<open>The vocabulary of the specification for the header rewrite.\<close>

definition is_header_line :: "jsstring \<Rightarrow> bool" where
  "is_header_line l =
     (startsWith l (ascii ''# UPDATED:'') \<or> startsWith l (ascii ''# DOMAIN:'') \<or>
      startsWith l (ascii ''# DOMAIN-SUFFIX:'') \<or> startsWith l (ascii ''# TOTAL:''))"

text \<open>What the first loop of \<open>updateListHeader\<close> pushes for one line.\<close>

definition rewrite_line :: "'a header_params_scheme \<Rightarrow> jsstring \<Rightarrow> jsstring" where
  "rewrite_line p line =
     (if startsWith line (ascii ''# UPDATED:'') then ascii ''# UPDATED: '' @ updatedAt p
      else if startsWith line (ascii ''# DOMAIN:'')
      then ascii ''# DOMAIN: '' @ String_of (domainCount p)
      else if startsWith line (ascii ''# DOMAIN-SUFFIX:'')
      then ascii ''# DOMAIN-SUFFIX: '' @ String_of (domainSuffixCount p)
      else if startsWith line (ascii ''# TOTAL:'') then ascii ''# TOTAL: '' @ String_of (total p)
      else line)"

definition has_line :: "jsstring \<Rightarrow> jsstring list \<Rightarrow> bool" where
  "has_line pre ls = list_ex (\<lambda>l. startsWith l pre) ls"

text \<open>
  The position directly after the first line that is not blank, and 0 when every line is
  blank.
\<close>

definition after_first_nonblank :: "jsstring list \<Rightarrow> nat" where
  "after_first_nonblank ls =
     (if list_all is_blank ls then 0 else Suc (length (takeWhile is_blank ls)))"

definition ends_with_CR :: "jsstring \<Rightarrow> bool" where
  "ends_with_CR l = (case rev l of [] \<Rightarrow> False | c # _ \<Rightarrow> c = CR)"

text \<open>A line without LF that does not end with CR: joining and splitting gives it back.\<close>

definition clean_line :: "jsstring \<Rightarrow> bool" where
  "clean_line l = (LF \<notin> set l \<and> \<not> ends_with_CR l)"

text \<open>
  What splitting makes of a line that was joined to a following one: a CR at its end
  becomes part of the separator.
\<close>

definition drop_final_CR :: "jsstring \<Rightarrow> jsstring" where
  "drop_final_CR l = (if ends_with_CR l then butlast l else l)"

definition non_header_line :: "jsstring \<Rightarrow> bool" where
  "non_header_line l = (\<not> is_header_line l)"

text \<open>\<open>insert_at k x xs\<close> puts \<open>x\<close> at index \<open>k\<close> and moves the elements from there on by one.\<close>

definition insert_at :: "nat \<Rightarrow> 'a \<Rightarrow> 'a list \<Rightarrow> 'a list" where
  "insert_at k x xs = take k xs @ x # drop k xs"

text \<open>
  A line that is missing is put at index \<open>k\<close>, or at the end of a sequence shorter than
  \<open>k\<close>; a line that is present leaves the sequence as it is.
\<close>

definition add_if_missing :: "bool \<Rightarrow> nat \<Rightarrow> 'a \<Rightarrow> 'a list \<Rightarrow> 'a list" where
  "add_if_missing present k x xs = (if present then xs else insert_at (min k (length xs)) x xs)"

section \<open>Rewriting the README\<close>

record readme_params = header_params +
  tempName :: "jsstring option"

text \<open>The label \<open>updatedAtPrefix\<close>: U+6700 U+540E U+66F4 U+65B0 U+65F6 U+95F4 U+FF1A.\<close>

definition updatedAtPrefix :: jsstring where
  "updatedAtPrefix = [0x6700, 0x540E, 0x66F4, 0x65B0, 0x65F6, 0x95F4, 0xFF1A]"

definition datetimeToken :: jsstring where
  "datetimeToken = ascii ''${{ datetime }}''"

definition tempNameToken :: jsstring where
  "tempNameToken = ascii ''${{ TempName }}''"

text \<open>
  The regular expressions of \<open>updateReadme\<close> are anchored at both ends and are sequences of
  single characters, character classes and starred character classes. \<open>One P\<close> is one
  character of the class \<open>P\<close>, \<open>Many P\<close> is \<open>P*\<close>; \<open>rx_test\<close> is the backtracking matcher,
  the greedy alternative first.
\<close>

datatype rx_item = One "jschar \<Rightarrow> bool" | Many "jschar \<Rightarrow> bool"

fun rx_test :: "rx_item list \<Rightarrow> jsstring \<Rightarrow> bool" where
  "rx_test [] s = (s = [])"
| "rx_test (One P # r) [] = False"
| "rx_test (One P # r) (c # cs) = (P c \<and> rx_test r cs)"
| "rx_test (Many P # r) [] = rx_test r []"
| "rx_test (Many P # r) (c # cs) = ((P c \<and> rx_test (Many P # r) cs) \<or> rx_test r (c # cs))"

definition lit :: "jsstring \<Rightarrow> rx_item list" where
  "lit s = map (\<lambda>k. One (\<lambda>c. c = k)) s"

text \<open>
  \<open>^\|\s*KEY\s*\|\s*\d+\s*\|$\<close>. The source escapes the hyphen of the key
  (\<open>key.replace('-', '\\-')\<close>); \<open>\-\<close> matches the hyphen itself.
\<close>

definition row_regex :: "jsstring \<Rightarrow> rx_item list" where
  "row_regex key =
     lit [0x7C] @ [Many isWhiteSpace] @ lit key @ [Many isWhiteSpace] @ lit [0x7C] @
     [Many isWhiteSpace] @ [One isDigit, Many isDigit] @ [Many isWhiteSpace] @ lit [0x7C]"

definition tableMatchers :: "'a header_params_scheme \<Rightarrow> (jsstring \<times> int) list" where
  "tableMatchers p =
     [(ascii ''DOMAIN'', domainCount p),
      (ascii ''DOMAIN-SUFFIX'', domainSuffixCount p),
      (ascii ''TOTAL'', total p)]"

definition render_row :: "jsstring \<Rightarrow> int \<Rightarrow> jsstring" where
  "render_row key v = ascii ''| '' @ padEnd key 14 @ ascii '' | '' @ padEnd (String_of v) 5 @ ascii '' |''"

text \<open>The loop over \<open>tableMatchers\<close>: the first key whose expression matches decides.\<close>

fun match_rows :: "(jsstring \<times> int) list \<Rightarrow> jsstring \<Rightarrow> jsstring option" where
  "match_rows [] line = None"
| "match_rows ((key, v) # ms) line =
     (if rx_test (row_regex key) line then Some (render_row key v) else match_rows ms line)"

text \<open>\<open>s.includes(t)\<close>.\<close>

fun includes_str :: "jsstring \<Rightarrow> jsstring \<Rightarrow> bool" where
  "includes_str [] t = (t = [])"
| "includes_str (c # cs) t = (startsWith (c # cs) t \<or> includes_str cs t)"

text \<open>
  ECMAScript's GetSubstitution for a search string (no capture groups): in the replacement
  text \<open>$$\<close> stands for \<open>$\<close>, \<open>$&\<close> for the matched text, \<open>$`\<close> for the text before the
  match and \<open>$'\<close> for the text after it; every other character, also a \<open>$\<close> in front of
  anything else, stands for itself.
\<close>

fun getSubstitution :: "jsstring \<Rightarrow> jsstring \<Rightarrow> jsstring \<Rightarrow> jsstring \<Rightarrow> jsstring" where
  "getSubstitution m b a (c # d # r) =
     (if c = 0x24 \<and> d = 0x24 then 0x24 # getSubstitution m b a r
      else if c = 0x24 \<and> d = 0x26 then m @ getSubstitution m b a r
      else if c = 0x24 \<and> d = 0x60 then b @ getSubstitution m b a r
      else if c = 0x24 \<and> d = 0x27 then a @ getSubstitution m b a r
      else c # getSubstitution m b a (d # r))"
| "getSubstitution m b a r = r"

text \<open>
  \<open>s.replace(pat, rep)\<close> with a string pattern: the first occurrence only. \<open>pre\<close> is
  the part of the string already passed.
\<close>

fun replace_from :: "jsstring \<Rightarrow> jsstring \<Rightarrow> jsstring \<Rightarrow> jsstring \<Rightarrow> jsstring" where
  "replace_from pre [] pat rep = (if pat = [] then getSubstitution pat pre [] rep else [])"
| "replace_from pre (c # cs) pat rep =
     (if startsWith (c # cs) pat
      then getSubstitution pat pre (drop (length pat) (c # cs)) rep @ drop (length pat) (c # cs)
      else c # replace_from (pre @ [c]) cs pat rep)"

definition replace :: "jsstring \<Rightarrow> jsstring \<Rightarrow> jsstring \<Rightarrow> jsstring" where
  "replace s pat rep = replace_from [] s pat rep"

text \<open>
  \<open>s.replaceAll(pat, rep)\<close> with a string pattern: the occurrences are found from left to
  right without overlap (after an empty pattern the search moves on by one character).
\<close>

function replaceAll_from :: "jsstring \<Rightarrow> jsstring \<Rightarrow> jsstring \<Rightarrow> jsstring \<Rightarrow> jsstring" where
  "replaceAll_from pre rest pat rep =
     (if startsWith rest pat
      then getSubstitution pat pre (drop (length pat) rest) rep @
           (if pat = []
            then (case rest of [] \<Rightarrow> [] | c # cs \<Rightarrow> c # replaceAll_from (pre @ [c]) cs pat rep)
            else replaceAll_from (pre @ pat) (drop (length pat) rest) pat rep)
      else (case rest of [] \<Rightarrow> [] | c # cs \<Rightarrow> c # replaceAll_from (pre @ [c]) cs pat rep))"
  by pat_completeness auto
termination
proof (relation "measure (\<lambda>(pre, rest, pat, rep). length rest)", goal_cases)
  case (3 pre rest pat rep)
  then have "rest \<noteq> []" and "pat \<noteq> []"
    by (auto simp: startsWith_def)
  then show ?case by simp
qed auto

declare replaceAll_from.simps [simp del]

definition replaceAll :: "jsstring \<Rightarrow> jsstring \<Rightarrow> jsstring \<Rightarrow> jsstring" where
  "replaceAll s pat rep = replaceAll_from [] s pat rep"

text \<open>
  The vocabulary of the specification for the placeholders. A replacement text is plain
  when it holds none of the patterns \<open>$$\<close>, \<open>$&\<close>, \<open>$`\<close>, \<open>$'\<close>. \<open>join_with sep ps\<close> is
  the pieces \<open>ps\<close> with \<open>sep\<close> between them, and \<open>pieces_between tok ps\<close> says that
  \<open>ps\<close> are the pieces of a text between the occurrences of \<open>tok\<close> found from left to
  right: no occurrence begins inside a piece.
\<close>

fun has_dollar_pattern :: "jsstring \<Rightarrow> bool" where
  "has_dollar_pattern (c # d # r) =
     ((c = 0x24 \<and> (d = 0x24 \<or> d = 0x26 \<or> d = 0x60 \<or> d = 0x27)) \<or>
      has_dollar_pattern (d # r))"
| "has_dollar_pattern r = False"

fun join_with :: "jsstring \<Rightarrow> jsstring list \<Rightarrow> jsstring" where
  "join_with sep [] = []"
| "join_with sep [p] = p"
| "join_with sep (p # ps) = p @ sep @ join_with sep ps"

fun pieces_between :: "jsstring \<Rightarrow> jsstring list \<Rightarrow> bool" where
  "pieces_between tok [] = False"
| "pieces_between tok [p] = (\<not> includes_str p tok)"
| "pieces_between tok (p # ps) =
     (\<not> includes_str (p @ butlast tok) tok \<and> pieces_between tok ps)"

definition updateReadme_line :: "readme_params \<Rightarrow> jsstring \<Rightarrow> jsstring" where
  "updateReadme_line p line =
     (if startsWith line updatedAtPrefix then updatedAtPrefix @ updatedAt p
      else (case match_rows (tableMatchers p) line of
              Some row \<Rightarrow> row
            | None \<Rightarrow>
                if includes_str line datetimeToken then replace line datetimeToken (updatedAt p)
                else (case tempName p of
                        Some t \<Rightarrow>
                          if includes_str line tempNameToken \<and> t \<noteq> []
                          then replaceAll line tempNameToken t
                          else line
                      | None \<Rightarrow> line)))"

definition updateReadme :: "jsstring \<Rightarrow> readme_params \<Rightarrow> jsstring" where
  "updateReadme content p = join_lines (map (updateReadme_line p) (split_lines content))"

section \<open>The functions on arbitrary values\<close>

text \<open>
  JavaScript checks no types before it runs: the three functions can be called on any
  value, a method call such as \<open>line.trim()\<close> throws a TypeError when its receiver is no
  string, and \<open>new RegExp(pattern)\<close> throws a SyntaxError on a malformed pattern. Here the
  functions are written once more over untyped values, every operation that can throw
  giving an error or a result, to show that on strings no error is reached. The values are
  \<open>undefined\<close>, \<open>null\<close>, the integer numbers and the strings; arrays are lists of them.
\<close>

datatype jsval = JUndefined | JNull | JNumber int | JString jsstring

datatype js_error = TypeError | SyntaxError

fun bind_js :: "js_error + 'a \<Rightarrow> ('a \<Rightarrow> js_error + 'b) \<Rightarrow> js_error + 'b" where
  "bind_js (Inl e) f = Inl e"
| "bind_js (Inr x) f = f x"

text \<open>
  A call of a string method on a value: \<open>undefined\<close> and \<open>null\<close> have no properties, and
  a number has none of the string methods, so only a string does not throw.
\<close>

fun on_string :: "jsval \<Rightarrow> (jsstring \<Rightarrow> 'a) \<Rightarrow> js_error + 'a" where
  "on_string (JString s) f = Inr (f s)"
| "on_string JUndefined f = Inl TypeError"
| "on_string JNull f = Inl TypeError"
| "on_string (JNumber n) f = Inl TypeError"

text \<open>The truth value of a value in a condition, and its conversion to a string.\<close>

fun js_truthy :: "jsval \<Rightarrow> bool" where
  "js_truthy JUndefined = False"
| "js_truthy JNull = False"
| "js_truthy (JNumber n) = (n \<noteq> 0)"
| "js_truthy (JString s) = (s \<noteq> [])"

fun js_ToString :: "jsval \<Rightarrow> jsstring" where
  "js_ToString JUndefined = ascii ''undefined''"
| "js_ToString JNull = ascii ''null''"
| "js_ToString (JNumber n) = String_of n"
| "js_ToString (JString s) = s"

text \<open>A \<open>for ... of\<close> loop, \<open>map\<close> and \<open>findIndex\<close> whose bodies can throw.\<close>

fun fold_js :: "('a \<Rightarrow> 's \<Rightarrow> js_error + 's) \<Rightarrow> 'a list \<Rightarrow> 's \<Rightarrow> js_error + 's" where
  "fold_js f [] s = Inr s"
| "fold_js f (x # xs) s = bind_js (f x s) (fold_js f xs)"

fun map_js :: "('a \<Rightarrow> js_error + 'b) \<Rightarrow> 'a list \<Rightarrow> js_error + 'b list" where
  "map_js f [] = Inr []"
| "map_js f (x # xs) = bind_js (f x) (\<lambda>y. bind_js (map_js f xs) (\<lambda>ys. Inr (y # ys)))"

fun findIndex_js :: "('a \<Rightarrow> js_error + bool) \<Rightarrow> 'a list \<Rightarrow> js_error + int" where
  "findIndex_js P [] = Inr (- 1)"
| "findIndex_js P (x # xs) =
     bind_js (P x) (\<lambda>b. if b then Inr 0
        else bind_js (findIndex_js P xs) (\<lambda>i. Inr (if i = - 1 then - 1 else i + 1)))"

text \<open>\<open>xs.join('\n')\<close> on arbitrary elements: \<open>undefined\<close> and \<open>null\<close> give the empty string.\<close>

fun join_element :: "jsval \<Rightarrow> jsstring" where
  "join_element JUndefined = []"
| "join_element JNull = []"
| "join_element v = js_ToString v"

definition join_js :: "jsval list \<Rightarrow> jsstring" where
  "join_js xs = join_lines (map join_element xs)"

definition split_js :: "jsval \<Rightarrow> js_error + jsval list" where
  "split_js content = on_string content (\<lambda>s. map JString (split_lines s))"

definition isRuleLine_js :: "jsval \<Rightarrow> js_error + bool" where
  "isRuleLine_js line =
     (if \<not> js_truthy line then Inr False
      else bind_js (on_string line trim) (\<lambda>trimmed.
        if length trimmed = 0 then Inr False
        else if startsWith trimmed (ascii ''#'') then Inr False
        else Inr True))"

definition count_line_js :: "jsval \<Rightarrow> typeCounts \<times> nat \<Rightarrow> js_error + typeCounts \<times> nat" where
  "count_line_js line st =
     bind_js (isRuleLine_js line) (\<lambda>rule.
       if \<not> rule then Inr st
       else bind_js (on_string line (\<lambda>l. indexOf l 0x2C)) (\<lambda>idx.
         bind_js (if idx = - 1 then on_string line trim
                  else bind_js (on_string line (\<lambda>l. slice l 0 idx)) (\<lambda>t. Inr (trim t)))
           (\<lambda>type.
              if type = [] then Inr st
              else Inr (AList.update type (count_of (fst st) type + 1) (fst st), snd st + 1))))"

definition parseCountsFromList_js :: "jsval \<Rightarrow> js_error + typeCounts \<times> nat" where
  "parseCountsFromList_js content =
     bind_js (split_js content) (\<lambda>lines. fold_js count_line_js lines ([], 0))"

text \<open>The second argument of \<open>updateListHeader\<close> and \<open>updateReadme\<close>, destructured.\<close>

record js_params =
  updatedAt_js :: jsval
  domainCount_js :: jsval
  domainSuffixCount_js :: jsval
  total_js :: jsval
  tempName_js :: jsval

record header_scan_js =
  out_js :: "jsval list"
  hasUpdated_js :: bool
  hasDomain_js :: bool
  hasDomainSuffix_js :: bool
  hasTotal_js :: bool

definition scan_line_js :: "js_params \<Rightarrow> jsval \<Rightarrow> header_scan_js \<Rightarrow> js_error + header_scan_js" where
  "scan_line_js p line s =
     bind_js (on_string line (\<lambda>l. startsWith l (ascii ''# UPDATED:''))) (\<lambda>u.
       if u
       then Inr (s\<lparr>out_js := out_js s @
                        [JString (ascii ''# UPDATED: '' @ js_ToString (updatedAt_js p))],
                    hasUpdated_js := True\<rparr>)
       else bind_js (on_string line (\<lambda>l. startsWith l (ascii ''# DOMAIN:''))) (\<lambda>d.
         if d
         then Inr (s\<lparr>out_js := out_js s @
                          [JString (ascii ''# DOMAIN: '' @ js_ToString (domainCount_js p))],
                      hasDomain_js := True\<rparr>)
         else bind_js (on_string line (\<lambda>l. startsWith l (ascii ''# DOMAIN-SUFFIX:''))) (\<lambda>x.
           if x
           then Inr (s\<lparr>out_js := out_js s @
                            [JString (ascii ''# DOMAIN-SUFFIX: '' @
                               js_ToString (domainSuffixCount_js p))],
                        hasDomainSuffix_js := True\<rparr>)
           else bind_js (on_string line (\<lambda>l. startsWith l (ascii ''# TOTAL:''))) (\<lambda>t.
             if t
             then Inr (s\<lparr>out_js := out_js s @
                              [JString (ascii ''# TOTAL: '' @ js_ToString (total_js p))],
                          hasTotal_js := True\<rparr>)
             else Inr (s\<lparr>out_js := out_js s @ [line]\<rparr>)))))"

definition insertHeaderIfMissing_js ::
  "jsval list \<times> bool \<Rightarrow> jsstring \<Rightarrow> jsval \<Rightarrow> js_error + jsval list \<times> bool" where
  "insertHeaderIfMissing_js st tag line =
     (if snd st then Inr st
      else bind_js
             (findIndex_js (\<lambda>l. bind_js (on_string l trim) (\<lambda>t. Inr (length t > 0))) (fst st))
             (\<lambda>idx. let insertAt = (if idx = - 1 then 0 else min (idx + 1) (int (length (fst st))))
                    in Inr (splice_insert (fst st) (nat insertAt) line, True)))"

definition updateListHeader_js :: "jsval \<Rightarrow> js_params \<Rightarrow> js_error + jsstring" where
  "updateListHeader_js content p =
     bind_js (split_js content) (\<lambda>lines.
     bind_js (fold_js (scan_line_js p) lines
                \<lparr>out_js = [], hasUpdated_js = False, hasDomain_js = False,
                 hasDomainSuffix_js = False, hasTotal_js = False\<rparr>) (\<lambda>s.
     bind_js (if \<not> hasUpdated_js s
              then bind_js (insertHeaderIfMissing_js (out_js s, False) (ascii ''UPDATED'')
                              (JString (ascii ''# UPDATED: '' @ js_ToString (updatedAt_js p))))
                     (\<lambda>r. Inr (fst r))
              else Inr (out_js s)) (\<lambda>out1.
     let out2 = (if \<not> hasDomain_js s
                 then splice_insert out1 2
                        (JString (ascii ''# DOMAIN: '' @ js_ToString (domainCount_js p)))
                 else out1);
         out3 = (if \<not> hasDomainSuffix_js s
                 then splice_insert out2 3
                        (JString (ascii ''# DOMAIN-SUFFIX: '' @
                           js_ToString (domainSuffixCount_js p)))
                 else out2);
         out4 = (if \<not> hasTotal_js s
                 then splice_insert out3 4
                        (JString (ascii ''# TOTAL: '' @ js_ToString (total_js p)))
                 else out3)
     in Inr (join_js out4))))"

text \<open>
  \<open>new RegExp(pattern)\<close>. The patterns read here are those of the form the source builds:
  \<open>^\<close>, then characters, escaped characters and the classes \<open>\s\<close> and \<open>\d\<close>, each
  alone or followed by \<open>*\<close> or \<open>+\<close>, then \<open>$\<close>. Every other pattern is answered with the
  SyntaxError, also one that JavaScript would accept.
\<close>

definition isSyntaxCharacter :: "jschar \<Rightarrow> bool" where
  "isSyntaxCharacter c =
     (c = 0x5E \<or> c = 0x24 \<or> c = 0x5C \<or> c = 0x2E \<or> c = 0x2A \<or> c = 0x2B \<or> c = 0x3F \<or>
      c = 0x28 \<or> c = 0x29 \<or> c = 0x5B \<or> c = 0x5D \<or> c = 0x7B \<or> c = 0x7D \<or> c = 0x7C)"

fun read_atom :: "jsstring \<Rightarrow> ((jschar \<Rightarrow> bool) \<times> jsstring) option" where
  "read_atom (c # d # r) =
     (if c = 0x5C
      then (if d = 0x73 then Some (isWhiteSpace, r)
            else if d = 0x64 then Some (isDigit, r)
            else if isSyntaxCharacter d \<or> d = 0x2D then Some (\<lambda>x. x = d, r)
            else None)
      else if isSyntaxCharacter c then None
      else Some (\<lambda>x. x = c, d # r))"
| "read_atom [c] = (if isSyntaxCharacter c then None else Some (\<lambda>x. x = c, []))"
| "read_atom [] = None"

fun read_quantifier :: "(jschar \<Rightarrow> bool) \<Rightarrow> jsstring \<Rightarrow> rx_item list \<times> jsstring" where
  "read_quantifier P (q # r) =
     (if q = 0x2A then ([Many P], r)
      else if q = 0x2B then ([One P, Many P], r)
      else ([One P], q # r))"
| "read_quantifier P [] = ([One P], [])"

function parse_items :: "jsstring \<Rightarrow> js_error + rx_item list" where
  "parse_items s =
     (if s = [0x24] then Inr []
      else (case read_atom s of
              None \<Rightarrow> Inl SyntaxError
            | Some (P, r) \<Rightarrow>
                (case read_quantifier P r of
                   (items, r') \<Rightarrow> bind_js (parse_items r') (\<lambda>rest. Inr (items @ rest)))))"
  by pat_completeness auto
termination
proof (relation "measure length", goal_cases)
  case 1
  show ?case by simp
next
  case (2 s x2 P r items r')
  have "length r < length s"
    using 2(2,3) by (cases s rule: read_atom.cases) (auto split: if_splits)
  moreover have "length r' \<le> length r"
    using 2(4) by (cases r) (auto split: if_splits)
  ultimately show ?case by simp
qed

declare parse_items.simps [simp del]

definition RegExp_new :: "jsstring \<Rightarrow> js_error + rx_item list" where
  "RegExp_new pattern =
     (case pattern of [] \<Rightarrow> Inl SyntaxError
      | c # r \<Rightarrow> if c = 0x5E then parse_items r else Inl SyntaxError)"

text \<open>
  The template \<open>^\\|\\s*${key.replace('-', '\\-')}\\s*\\|\\s*\\d+\\s*\\|$\<close>: the
  characters \<open>^\|\s*\<close>, the key with its first hyphen escaped, and
  \<open>\s*\|\s*\d+\s*\|$\<close>.
\<close>

definition row_pattern :: "jsstring \<Rightarrow> jsstring" where
  "row_pattern key =
     [0x5E, 0x5C, 0x7C, 0x5C, 0x73, 0x2A] @ replace key [0x2D] [0x5C, 0x2D] @
     [0x5C, 0x73, 0x2A, 0x5C, 0x7C, 0x5C, 0x73, 0x2A, 0x5C, 0x64, 0x2B, 0x5C, 0x73, 0x2A,
      0x5C, 0x7C, 0x24]"

definition tableMatchers_js :: "js_params \<Rightarrow> (jsstring \<times> jsval) list" where
  "tableMatchers_js p =
     [(ascii ''DOMAIN'', domainCount_js p),
      (ascii ''DOMAIN-SUFFIX'', domainSuffixCount_js p),
      (ascii ''TOTAL'', total_js p)]"

text \<open>\<open>regex.test(line)\<close> converts its argument to a string and does not throw.\<close>

fun match_rows_js :: "(jsstring \<times> jsval) list \<Rightarrow> jsval \<Rightarrow> js_error + jsstring option" where
  "match_rows_js [] line = Inr None"
| "match_rows_js ((key, v) # ms) line =
     bind_js (RegExp_new (row_pattern key)) (\<lambda>regex.
       if rx_test regex (js_ToString line)
       then Inr (Some (ascii ''| '' @ padEnd key 14 @ ascii '' | '' @
                       padEnd (js_ToString v) 5 @ ascii '' |''))
       else match_rows_js ms line)"

definition updateReadme_line_js :: "js_params \<Rightarrow> jsval \<Rightarrow> js_error + jsval" where
  "updateReadme_line_js p line =
     bind_js (on_string line (\<lambda>l. startsWith l updatedAtPrefix)) (\<lambda>u.
       if u then Inr (JString (updatedAtPrefix @ js_ToString (updatedAt_js p)))
       else bind_js (match_rows_js (tableMatchers_js p) line) (\<lambda>m.
         case m of
           Some row \<Rightarrow> Inr (JString row)
         | None \<Rightarrow>
             bind_js (on_string line (\<lambda>l. includes_str l datetimeToken)) (\<lambda>d.
               if d
               then bind_js (on_string line
                               (\<lambda>l. replace l datetimeToken (js_ToString (updatedAt_js p))))
                      (\<lambda>r. Inr (JString r))
               else bind_js (on_string line (\<lambda>l. includes_str l tempNameToken)) (\<lambda>t.
                 if t \<and> js_truthy (tempName_js p)
                 then bind_js (on_string line
                                 (\<lambda>l. replaceAll l tempNameToken (js_ToString (tempName_js p))))
                        (\<lambda>r. Inr (JString r))
                 else Inr line))))"

definition updateReadme_js :: "jsval \<Rightarrow> js_params \<Rightarrow> js_error + jsstring" where
  "updateReadme_js content p =
     bind_js (split_js content) (\<lambda>lines.
     bind_js (map_js (updateReadme_line_js p) lines) (\<lambda>newLines. Inr (join_js newLines)))"

text \<open>
  The arguments the claims speak of: a string as timestamp, integers as counts, and a
  string or nothing as template name.
\<close>

definition js_params_of :: "readme_params \<Rightarrow> js_params" where
  "js_params_of p =
     \<lparr>updatedAt_js = JString (updatedAt p), domainCount_js = JNumber (domainCount p),
      domainSuffixCount_js = JNumber (domainSuffixCount p), total_js = JNumber (total p),
      tempName_js = (case tempName p of None \<Rightarrow> JUndefined | Some t \<Rightarrow> JString t)\<rparr>"

definition scan_js_of :: "header_scan \<Rightarrow> header_scan_js" where
  "scan_js_of s =
     \<lparr>out_js = map JString (out s), hasUpdated_js = hasUpdated s, hasDomain_js = hasDomain s,
      hasDomainSuffix_js = hasDomainSuffix s, hasTotal_js = hasTotal s\<rparr>"

section \<open>Properties of the counter\<close>

lemma indexOf_notin: "c \<notin> set s \<Longrightarrow> indexOf s c = - 1"
  by (induction s) auto

lemma indexOf_in: "c \<in> set s \<Longrightarrow> indexOf s c = int (length (takeWhile (\<lambda>x. x \<noteq> c) s))"
  by (induction s) (auto simp: Let_def)

lemma slice_from_0: "0 \<le> e \<Longrightarrow> slice s 0 e = take (nat e) s"
  by (simp add: slice_def Let_def min_def)

lemma type_is_category_token:
  "trim (if indexOf l 0x2C = - 1 then l else slice l 0 (indexOf l 0x2C)) = category_token l"
proof (cases "0x2C \<in> set l")
  case True
  then have i: "indexOf l 0x2C = int (length (takeWhile (\<lambda>x. x \<noteq> 0x2C) l))"
    by (rule indexOf_in)
  then have "slice l 0 (indexOf l 0x2C) = takeWhile (\<lambda>x. x \<noteq> 0x2C) l"
    by (simp add: slice_from_0 takeWhile_eq_take [symmetric])
  with i show ?thesis by (simp add: category_token_def)
next
  case False
  then have tw: "takeWhile (\<lambda>x. x \<noteq> 0x2C) l = l" by auto
  show ?thesis unfolding category_token_def tw using False by (simp add: indexOf_notin)
qed

lemma isRuleLine_entry_line: "isRuleLine l = entry_line l"
  by (cases "trim l")
     (auto simp: isRuleLine_def entry_line_def is_blank_def is_comment_def startsWith_def
        ascii_def trim_def Let_def)

lemma count_line_eq:
  "count_line l st =
     (if counted_line l
      then (AList.update (category_token l) (count_of (fst st) (category_token l) + 1) (fst st),
            snd st + 1)
      else st)"
  unfolding count_line_def Let_def type_is_category_token isRuleLine_entry_line counted_line_def
  by simp

lemma total_fold:
  "snd (fold count_line ls st) = snd st + length (filter counted_line ls)"
  by (induction ls arbitrary: st) (simp_all add: count_line_eq)

lemma sum_update_bump:
  "sum_list (map snd (AList.update k (count_of tc k + 1) tc)) = sum_list (map snd tc) + 1"
  by (induction tc) (auto simp: count_of_def)

lemma sum_count_line:
  "sum_list (map snd (fst st)) = snd st \<Longrightarrow>
   sum_list (map snd (fst (count_line l st))) = snd (count_line l st)"
  using sum_update_bump [of "category_token l" "fst st"] by (simp add: count_line_eq)

lemma sum_fold:
  "sum_list (map snd (fst st)) = snd st \<Longrightarrow>
   sum_list (map snd (fst (fold count_line ls st))) = snd (fold count_line ls st)"
  by (induction ls arbitrary: st) (simp_all add: sum_count_line)

lemma distinct_fold:
  "distinct (map fst (fst st)) \<Longrightarrow> distinct (map fst (fst (fold count_line ls st)))"
  by (induction ls arbitrary: st) (simp_all add: count_line_eq distinct_update)

lemma count_of_update: "count_of (AList.update k v tc) k' = (if k' = k then v else count_of tc k')"
  by (simp add: count_of_def update_conv')

lemma count_of_fold:
  "count_of (fst (fold count_line ls st)) k =
     count_of (fst st) k + length (filter (\<lambda>l. counted_line l \<and> category_token l = k) ls)"
  by (induction ls arbitrary: st) (auto simp: count_line_eq count_of_update)

text \<open>
  C1, as stated: the total is the number of lines that are neither blank nor comments.
  This fails on the one-line text \<open>,foo\<close>: the line is neither blank nor a comment, but
  nothing stands before its comma, so the loop skips it and the total is 0.
\<close>

theorem total_entry_lines_counterexample:
  "snd (parseCountsFromList (ascii '',foo'')) = 0 \<and>
   length (filter entry_line (split_lines (ascii '',foo''))) = 1"
  by code_simp

text \<open>
  C1, amended: for every text, the total is the number of lines that are neither blank
  nor comments and whose part before the first comma is not blank.
\<close>

theorem total_counted_lines:
  "snd (parseCountsFromList content) = length (filter counted_line (split_lines content))"
  by (simp add: parseCountsFromList_def total_fold)

theorem total_counted_lines_witness:
  "length (filter counted_line (split_lines (ascii ''DOMAIN,a'' @ LF # ascii '',b''))) = 1 \<and>
   snd (parseCountsFromList (ascii ''DOMAIN,a'' @ LF # ascii '',b'')) = 1"
proof -
  have "length (filter counted_line (split_lines (ascii ''DOMAIN,a'' @ LF # ascii '',b''))) = 1"
    by code_simp
  then show ?thesis
    using total_counted_lines [of "ascii ''DOMAIN,a'' @ LF # ascii '',b''"] by simp
qed

text \<open>
  C5: for every text, the per-category counts (one entry per category) add up to the
  total.
\<close>

theorem counts_sum_to_total:
  "distinct (map fst (fst (parseCountsFromList content))) \<and>
   sum_list (map snd (fst (parseCountsFromList content))) = snd (parseCountsFromList content)"
  by (simp add: parseCountsFromList_def sum_fold distinct_fold)

theorem counts_sum_to_total_witness:
  "parseCountsFromList
     (ascii ''DOMAIN,example.com'' @ LF # ascii ''DOMAIN-SUFFIX,example.org'' @ LF #
      ascii ''# comment'' @ LF # ascii ''DOMAIN,foo.com'' @ [LF]) =
     ([(ascii ''DOMAIN'', 2), (ascii ''DOMAIN-SUFFIX'', 1)], 3) \<and>
   sum_list (map snd [(ascii ''DOMAIN'', 2 :: nat), (ascii ''DOMAIN-SUFFIX'', 1)]) = 3"
proof -
  have "parseCountsFromList
     (ascii ''DOMAIN,example.com'' @ LF # ascii ''DOMAIN-SUFFIX,example.org'' @ LF #
      ascii ''# comment'' @ LF # ascii ''DOMAIN,foo.com'' @ [LF]) =
     ([(ascii ''DOMAIN'', 2), (ascii ''DOMAIN-SUFFIX'', 1)], 3)"
    by code_simp
  then show ?thesis
    using counts_sum_to_total
      [of "ascii ''DOMAIN,example.com'' @ LF # ascii ''DOMAIN-SUFFIX,example.org'' @ LF #
           ascii ''# comment'' @ LF # ascii ''DOMAIN,foo.com'' @ [LF]"]
    by simp
qed

text \<open>
  C7: on a line that is neither blank nor a comment, the category is the part of the line
  before its first comma, trimmed (the whole trimmed line when there is no comma); a line
  with an empty category changes neither the counts nor the total, any other line adds one
  to its category and one to the total. Over a whole text, the count of a category is the
  number of such lines with that category, and the text \<open>DOMAIN\<close> gives DOMAIN: 1,
  total 1.
\<close>

theorem category_of_entry_line:
  "(entry_line l \<longrightarrow>
      count_line l (tc, n) =
        (if category_token l = [] then (tc, n)
         else (AList.update (category_token l) (count_of tc (category_token l) + 1) tc, n + 1))) \<and>
   (0x2C \<notin> set l \<longrightarrow> category_token l = trim l) \<and>
   count_of (fst (parseCountsFromList content)) k =
     length (filter (\<lambda>l. entry_line l \<and> category_token l \<noteq> [] \<and> category_token l = k)
       (split_lines content)) \<and>
   parseCountsFromList (ascii ''DOMAIN'') = ([(ascii ''DOMAIN'', 1)], 1)"
proof (intro conjI impI)
  assume "entry_line l"
  then show "count_line l (tc, n) =
       (if category_token l = [] then (tc, n)
        else (AList.update (category_token l) (count_of tc (category_token l) + 1) tc, n + 1))"
    by (simp add: count_line_eq counted_line_def)
next
  assume "0x2C \<notin> set l"
  then have "takeWhile (\<lambda>c. c \<noteq> 0x2C) l = l" by auto
  then show "category_token l = trim l" unfolding category_token_def by (rule arg_cong)
next
  have "count_of (fst (([], 0) :: typeCounts \<times> nat)) k = 0"
    by (simp add: count_of_def)
  then show "count_of (fst (parseCountsFromList content)) k =
     length (filter (\<lambda>l. entry_line l \<and> category_token l \<noteq> [] \<and> category_token l = k)
       (split_lines content))"
    unfolding parseCountsFromList_def count_of_fold counted_line_def by (simp add: conj_commute conj_left_commute)
next
  show "parseCountsFromList (ascii ''DOMAIN'') = ([(ascii ''DOMAIN'', 1)], 1)"
    by code_simp
qed

theorem category_of_entry_line_witness:
  "entry_line (ascii '' DOMAIN-SUFFIX , x,y'') \<and>
   category_token (ascii '' DOMAIN-SUFFIX , x,y'') = ascii ''DOMAIN-SUFFIX'' \<and>
   count_line (ascii '' DOMAIN-SUFFIX , x,y'') ([(ascii ''DOMAIN-SUFFIX'', 4)], 9) =
     ([(ascii ''DOMAIN-SUFFIX'', 5)], 10) \<and>
   category_token (ascii '' DOMAIN '') = ascii ''DOMAIN''"
proof -
  have e: "entry_line (ascii '' DOMAIN-SUFFIX , x,y'')"
    by code_simp
  have c: "category_token (ascii '' DOMAIN-SUFFIX , x,y'') = ascii ''DOMAIN-SUFFIX''"
    by code_simp
  have n: "0x2C \<notin> set (ascii '' DOMAIN '')"
    by code_simp
  have t: "trim (ascii '' DOMAIN '') = ascii ''DOMAIN''"
    by code_simp
  have u: "AList.update (ascii ''DOMAIN-SUFFIX'')
             (count_of [(ascii ''DOMAIN-SUFFIX'', 4)] (ascii ''DOMAIN-SUFFIX'') + 1)
             [(ascii ''DOMAIN-SUFFIX'', 4)] = [(ascii ''DOMAIN-SUFFIX'', 5)]"
    by code_simp
  have d: "ascii ''DOMAIN-SUFFIX'' \<noteq> []"
    by (simp add: ascii_def)
  from category_of_entry_line
         [of "ascii '' DOMAIN-SUFFIX , x,y''" "[(ascii ''DOMAIN-SUFFIX'', 4)]" 9 "[]" "[]"]
       category_of_entry_line [of "ascii '' DOMAIN ''" "[]" 0 "[]" "[]"]
  show ?thesis
    using e c n t u d by simp
qed

section \<open>Properties of the header rewrite\<close>

lemma startsWith_prefix: "startsWith s p = prefix p s"
  unfolding startsWith_def
  by (metis append_take_drop_id prefixI prefixE append_eq_conv_conj)

lemma startsWith_exclusive:
  "startsWith s p \<Longrightarrow> \<not> prefix p q \<Longrightarrow> \<not> prefix q p \<Longrightarrow> \<not> startsWith s q"
  unfolding startsWith_prefix using prefix_same_cases by blast

lemma not_DOMAIN_if_UPDATED:
  "startsWith l (ascii ''# UPDATED:'') \<Longrightarrow> \<not> startsWith l (ascii ''# DOMAIN:'')"
  by (erule startsWith_exclusive) (simp_all add: ascii_def)

lemma not_SUFFIX_if_UPDATED:
  "startsWith l (ascii ''# UPDATED:'') \<Longrightarrow> \<not> startsWith l (ascii ''# DOMAIN-SUFFIX:'')"
  by (erule startsWith_exclusive) (simp_all add: ascii_def)

lemma not_TOTAL_if_UPDATED:
  "startsWith l (ascii ''# UPDATED:'') \<Longrightarrow> \<not> startsWith l (ascii ''# TOTAL:'')"
  by (erule startsWith_exclusive) (simp_all add: ascii_def)

lemma not_SUFFIX_if_DOMAIN:
  "startsWith l (ascii ''# DOMAIN:'') \<Longrightarrow> \<not> startsWith l (ascii ''# DOMAIN-SUFFIX:'')"
  by (erule startsWith_exclusive) (simp_all add: ascii_def)

lemma not_TOTAL_if_DOMAIN:
  "startsWith l (ascii ''# DOMAIN:'') \<Longrightarrow> \<not> startsWith l (ascii ''# TOTAL:'')"
  by (erule startsWith_exclusive) (simp_all add: ascii_def)

lemma not_TOTAL_if_SUFFIX:
  "startsWith l (ascii ''# DOMAIN-SUFFIX:'') \<Longrightarrow> \<not> startsWith l (ascii ''# TOTAL:'')"
  by (erule startsWith_exclusive) (simp_all add: ascii_def)

lemmas header_exclusive =
  not_DOMAIN_if_UPDATED not_SUFFIX_if_UPDATED not_TOTAL_if_UPDATED
  not_SUFFIX_if_DOMAIN not_TOTAL_if_DOMAIN not_TOTAL_if_SUFFIX

lemma out_scan_line: "out (scan_line p l s) = out s @ [rewrite_line p l]"
  by (simp add: scan_line_def rewrite_line_def)

lemma hasUpdated_scan_line:
  "hasUpdated (scan_line p l s) = (hasUpdated s \<or> startsWith l (ascii ''# UPDATED:''))"
  by (simp add: scan_line_def)

lemma hasDomain_scan_line:
  "hasDomain (scan_line p l s) = (hasDomain s \<or> startsWith l (ascii ''# DOMAIN:''))"
  using header_exclusive [of l] by (auto simp: scan_line_def)

lemma hasDomainSuffix_scan_line:
  "hasDomainSuffix (scan_line p l s) =
     (hasDomainSuffix s \<or> startsWith l (ascii ''# DOMAIN-SUFFIX:''))"
  using header_exclusive [of l] by (auto simp: scan_line_def)

lemma hasTotal_scan_line:
  "hasTotal (scan_line p l s) = (hasTotal s \<or> startsWith l (ascii ''# TOTAL:''))"
  using header_exclusive [of l] by (auto simp: scan_line_def)

lemma out_scan: "out (fold (scan_line p) ls s) = out s @ map (rewrite_line p) ls"
  by (induction ls arbitrary: s) (simp_all add: out_scan_line)

lemma hasUpdated_scan:
  "hasUpdated (fold (scan_line p) ls s) = (hasUpdated s \<or> has_line (ascii ''# UPDATED:'') ls)"
  by (induction ls arbitrary: s) (auto simp: hasUpdated_scan_line has_line_def)

lemma hasDomain_scan:
  "hasDomain (fold (scan_line p) ls s) = (hasDomain s \<or> has_line (ascii ''# DOMAIN:'') ls)"
  by (induction ls arbitrary: s) (auto simp: hasDomain_scan_line has_line_def)

lemma hasDomainSuffix_scan:
  "hasDomainSuffix (fold (scan_line p) ls s) =
     (hasDomainSuffix s \<or> has_line (ascii ''# DOMAIN-SUFFIX:'') ls)"
  by (induction ls arbitrary: s) (auto simp: hasDomainSuffix_scan_line has_line_def)

lemma hasTotal_scan:
  "hasTotal (fold (scan_line p) ls s) = (hasTotal s \<or> has_line (ascii ''# TOTAL:'') ls)"
  by (induction ls arbitrary: s) (auto simp: hasTotal_scan_line has_line_def)

lemma findIndex_eq:
  "findIndex P xs =
     (if \<exists>x\<in>set xs. P x then int (length (takeWhile (\<lambda>x. \<not> P x) xs)) else - 1)"
  by (induction xs) (auto simp: Let_def)

lemma findIndex_none: "\<forall>x\<in>set xs. \<not> P x \<Longrightarrow> findIndex P xs = - 1"
  by (simp add: findIndex_eq)

lemma findIndex_some:
  "\<exists>x\<in>set xs. P x \<Longrightarrow> findIndex P xs = int (length (takeWhile (\<lambda>x. \<not> P x) xs))"
  by (simp add: findIndex_eq)

lemma splice_insert_insert_at: "splice_insert xs k x = insert_at (min k (length xs)) x xs"
  by (simp add: splice_insert_def insert_at_def Let_def)

lemma insertHeaderIfMissing_eq:
  "fst (insertHeaderIfMissing (ls, False) tag line) = insert_at (after_first_nonblank ls) line ls"
proof (cases "list_all is_blank ls")
  case True
  then have "findIndex (\<lambda>l. length (trim l) > 0) ls = - 1"
    by (intro findIndex_none) (simp add: is_blank_def list_all_iff)
  with True show ?thesis
    by (simp add: insertHeaderIfMissing_def after_first_nonblank_def splice_insert_insert_at)
next
  case False
  then have ex: "\<exists>x\<in>set ls. 0 < length (trim x)"
    by (simp add: is_blank_def list_all_iff)
  have ib: "(\<lambda>x. \<not> 0 < length (trim x)) = is_blank"
    by (simp add: fun_eq_iff is_blank_def)
  have "findIndex (\<lambda>l. length (trim l) > 0) ls = int (length (takeWhile is_blank ls))"
    using findIndex_some [OF ex] unfolding ib .
  moreover have "length (takeWhile is_blank ls) < length ls"
  proof -
    have "takeWhile is_blank ls \<noteq> ls"
      using False by (simp add: takeWhile_eq_all_conv list_all_iff)
    then have "length (takeWhile is_blank ls) \<noteq> length ls"
      by (metis takeWhile_eq_take take_all order_refl)
    then show ?thesis
      using length_takeWhile_le [of is_blank ls] by simp
  qed
  moreover have "\<And>n. nat (int n + 1) = Suc n"
    by arith
  ultimately show ?thesis using False
    by (simp add: insertHeaderIfMissing_def after_first_nonblank_def splice_insert_insert_at Let_def)
qed


lemma splice_add_if_missing:
  "(if \<not> b then splice_insert xs k x else xs) = add_if_missing b k x xs"
  by (simp add: add_if_missing_def splice_insert_insert_at)

lemma insert_updated:
  "(if \<not> b then fst (insertHeaderIfMissing (ls, False) tag line) else ls) =
   (if b then ls else insert_at (after_first_nonblank ls) line ls)"
  by (simp add: insertHeaderIfMissing_eq)

lemma updateListHeader_lines_staged:
  "updateListHeader_lines content p =
     add_if_missing (has_line (ascii ''# TOTAL:'') (split_lines content)) 4
       (ascii ''# TOTAL: '' @ String_of (total p))
       (add_if_missing (has_line (ascii ''# DOMAIN-SUFFIX:'') (split_lines content)) 3
          (ascii ''# DOMAIN-SUFFIX: '' @ String_of (domainSuffixCount p))
          (add_if_missing (has_line (ascii ''# DOMAIN:'') (split_lines content)) 2
             (ascii ''# DOMAIN: '' @ String_of (domainCount p))
             (if has_line (ascii ''# UPDATED:'') (split_lines content)
              then map (rewrite_line p) (split_lines content)
              else insert_at (after_first_nonblank (map (rewrite_line p) (split_lines content)))
                     (ascii ''# UPDATED: '' @ updatedAt p)
                     (map (rewrite_line p) (split_lines content)))))"
  unfolding updateListHeader_lines_def Let_def splice_add_if_missing insert_updated
    out_scan hasUpdated_scan hasDomain_scan hasDomainSuffix_scan hasTotal_scan
  by (simp only: header_scan.simps append_Nil simp_thms)

lemma startsWith_literal_append:
  "startsWith (ascii ''# UPDATED: '' @ v) (ascii ''# UPDATED:'')"
  "startsWith (ascii ''# DOMAIN: '' @ v) (ascii ''# DOMAIN:'')"
  "startsWith (ascii ''# DOMAIN-SUFFIX: '' @ v) (ascii ''# DOMAIN-SUFFIX:'')"
  "startsWith (ascii ''# TOTAL: '' @ v) (ascii ''# TOTAL:'')"
  by (simp_all add: startsWith_def ascii_def)

lemma is_header_literal:
  "is_header_line (ascii ''# UPDATED: '' @ v)"
  "is_header_line (ascii ''# DOMAIN: '' @ v)"
  "is_header_line (ascii ''# DOMAIN-SUFFIX: '' @ v)"
  "is_header_line (ascii ''# TOTAL: '' @ v)"
  unfolding is_header_line_def by (simp_all only: startsWith_literal_append simp_thms)

lemma is_header_rewrite: "is_header_line (rewrite_line p l) = is_header_line l"
proof (cases "is_header_line l")
  case True
  then have "is_header_line (rewrite_line p l)"
    by (simp add: rewrite_line_def is_header_literal)
  with True show ?thesis by simp
next
  case False
  then have "rewrite_line p l = l"
    by (simp add: rewrite_line_def is_header_line_def)
  then show ?thesis by simp
qed

lemma rewrite_nonheader: "\<not> is_header_line l \<Longrightarrow> rewrite_line p l = l"
  by (simp add: rewrite_line_def is_header_line_def)

lemma filter_map_rewrite:
  "filter (\<lambda>l. \<not> is_header_line l) (map (rewrite_line p) ls) =
   filter (\<lambda>l. \<not> is_header_line l) ls"
  by (induction ls) (auto simp: is_header_rewrite rewrite_nonheader)

lemma filter_insert_at: "\<not> P x \<Longrightarrow> filter P (insert_at k x xs) = filter P xs"
proof -
  assume "\<not> P x"
  then have "filter P (insert_at k x xs) = filter P (take k xs) @ filter P (drop k xs)"
    by (simp add: insert_at_def)
  also have "\<dots> = filter P (take k xs @ drop k xs)"
    by (simp only: filter_append)
  also have "\<dots> = filter P xs"
    by (simp only: append_take_drop_id)
  finally show ?thesis .
qed

lemma filter_add_if_missing:
  "\<not> P x \<Longrightarrow> filter P (add_if_missing b k x xs) = filter P xs"
  by (simp add: add_if_missing_def filter_insert_at)

lemma non_header_kept:
  "filter (\<lambda>l. \<not> is_header_line l) (updateListHeader_lines content p) =
   filter (\<lambda>l. \<not> is_header_line l) (split_lines content)"
proof -
  let ?P = "\<lambda>l. \<not> is_header_line l"
  have "filter ?P
          (if has_line (ascii ''# UPDATED:'') (split_lines content)
           then map (rewrite_line p) (split_lines content)
           else insert_at (after_first_nonblank (map (rewrite_line p) (split_lines content)))
                  (ascii ''# UPDATED: '' @ updatedAt p)
                  (map (rewrite_line p) (split_lines content))) =
        filter ?P (split_lines content)"
    by (simp add: filter_insert_at is_header_literal filter_map_rewrite)
  then show ?thesis
    unfolding updateListHeader_lines_staged
    by (simp only: filter_add_if_missing is_header_literal not_not)
qed

lemma insert_at_position:
  "k \<le> length xs \<Longrightarrow>
     insert_at k x xs ! k = x \<and> length (insert_at k x xs) = Suc (length xs) \<and>
     take k (insert_at k x xs) = take k xs \<and> drop (Suc k) (insert_at k x xs) = drop k xs"
  by (simp add: insert_at_def nth_append min_def)

text \<open>
  C2, as stated: a missing \<open># DOMAIN:\<close> line is put at index 2, a missing
  \<open># DOMAIN-SUFFIX:\<close> line at index 3 and a missing \<open># TOTAL:\<close> line at index 4. This
  fails on the one-line text \<open># UPDATED: x\<close>: \<open>splice\<close> clamps a start index beyond the
  end, so the three lines land at the indices 1, 2 and 3.
\<close>

theorem fixed_index_counterexample:
  "updateListHeader_lines (ascii ''# UPDATED: x'')
     \<lparr>updatedAt = ascii ''t'', domainCount = 1, domainSuffixCount = 2, total = 3\<rparr> =
     [ascii ''# UPDATED: t'', ascii ''# DOMAIN: 1'', ascii ''# DOMAIN-SUFFIX: 2'',
      ascii ''# TOTAL: 3''] \<and>
   updateListHeader_lines (ascii ''# UPDATED: x'')
     \<lparr>updatedAt = ascii ''t'', domainCount = 1, domainSuffixCount = 2, total = 3\<rparr> ! 2 \<noteq>
     ascii ''# DOMAIN: 1''"
  by code_simp

text \<open>
  C2, amended: after the scan, a missing \<open># UPDATED:\<close> line is put directly after the
  first line that is not blank (at index 0 when every line is blank); then a missing
  \<open># DOMAIN:\<close> line is put at index 2 of the current sequence, or at its end when it has
  fewer than 2 lines; then a missing \<open># DOMAIN-SUFFIX:\<close> line at index 3, or at the end
  of a sequence with fewer than 3 lines; then a missing \<open># TOTAL:\<close> line at index 4, or
  at the end of a sequence with fewer than 4 lines. Putting a line at an index \<open>k\<close> within
  the sequence makes it the element \<open>k\<close> and moves the elements from \<open>k\<close> on by one.
\<close>

theorem header_insertion_positions:
  "updateListHeader_lines content p =
     add_if_missing (has_line (ascii ''# TOTAL:'') (split_lines content)) 4
       (ascii ''# TOTAL: '' @ String_of (total p))
       (add_if_missing (has_line (ascii ''# DOMAIN-SUFFIX:'') (split_lines content)) 3
          (ascii ''# DOMAIN-SUFFIX: '' @ String_of (domainSuffixCount p))
          (add_if_missing (has_line (ascii ''# DOMAIN:'') (split_lines content)) 2
             (ascii ''# DOMAIN: '' @ String_of (domainCount p))
             (if has_line (ascii ''# UPDATED:'') (split_lines content)
              then map (rewrite_line p) (split_lines content)
              else insert_at (after_first_nonblank (map (rewrite_line p) (split_lines content)))
                     (ascii ''# UPDATED: '' @ updatedAt p)
                     (map (rewrite_line p) (split_lines content))))) \<and>
   (k \<le> length xs \<longrightarrow>
      insert_at k x xs ! k = x \<and> length (insert_at k x xs) = Suc (length xs) \<and>
      take k (insert_at k x xs) = take k xs \<and> drop (Suc k) (insert_at k x xs) = drop k xs)"
  using updateListHeader_lines_staged [of content p] insert_at_position [of k xs x]
  by blast

theorem header_insertion_positions_witness:
  "updateListHeader_lines (ascii ''a'' @ LF # LF # ascii ''b'')
     \<lparr>updatedAt = ascii ''t'', domainCount = 1, domainSuffixCount = 2, total = 3\<rparr> =
     [ascii ''a'', ascii ''# UPDATED: t'', ascii ''# DOMAIN: 1'', ascii ''# DOMAIN-SUFFIX: 2'',
      ascii ''# TOTAL: 3'', [], ascii ''b''] \<and>
   insert_at 1 (ascii ''# UPDATED: t'') [ascii ''a'', [], ascii ''b''] ! 1 = ascii ''# UPDATED: t''"
proof -
  let ?c = "ascii ''a'' @ LF # LF # ascii ''b''"
  let ?p = "\<lparr>updatedAt = ascii ''t'', domainCount = 1, domainSuffixCount = 2, total = 3\<rparr>"
  have rhs:
    "add_if_missing (has_line (ascii ''# TOTAL:'') (split_lines ?c)) 4
       (ascii ''# TOTAL: '' @ String_of (total ?p))
       (add_if_missing (has_line (ascii ''# DOMAIN-SUFFIX:'') (split_lines ?c)) 3
          (ascii ''# DOMAIN-SUFFIX: '' @ String_of (domainSuffixCount ?p))
          (add_if_missing (has_line (ascii ''# DOMAIN:'') (split_lines ?c)) 2
             (ascii ''# DOMAIN: '' @ String_of (domainCount ?p))
             (if has_line (ascii ''# UPDATED:'') (split_lines ?c)
              then map (rewrite_line ?p) (split_lines ?c)
              else insert_at (after_first_nonblank (map (rewrite_line ?p) (split_lines ?c)))
                     (ascii ''# UPDATED: '' @ updatedAt ?p)
                     (map (rewrite_line ?p) (split_lines ?c))))) =
     [ascii ''a'', ascii ''# UPDATED: t'', ascii ''# DOMAIN: 1'', ascii ''# DOMAIN-SUFFIX: 2'',
      ascii ''# TOTAL: 3'', [], ascii ''b'']"
    by code_simp
  have len: "1 \<le> length [ascii ''a'', [], ascii ''b'']"
    by simp
  from header_insertion_positions
         [of ?c ?p 1 "[ascii ''a'', [], ascii ''b'']" "ascii ''# UPDATED: t''"]
  show ?thesis
    using rhs len by (simp only: simp_thms)
qed

lemma split_lines_nonempty: "split_lines s \<noteq> []"
  by (induction s) (auto split: list.splits)

lemma split_lines_no_LF: "LF \<notin> set l \<Longrightarrow> split_lines l = [l]"
proof (induction l)
  case Nil
  then show ?case by simp
next
  case (Cons c cs)
  then have "cs \<noteq> [] \<Longrightarrow> hd cs \<noteq> LF"
    by (cases cs) auto
  with Cons show ?case by auto
qed

lemma ends_with_CR_Cons: "cs \<noteq> [] \<Longrightarrow> ends_with_CR (c # cs) = ends_with_CR cs"
  by (cases "rev cs") (auto simp: ends_with_CR_def)

lemma ends_with_CR_single: "ends_with_CR [c] = (c = CR)"
  by (simp add: ends_with_CR_def)

lemma split_lines_append_LF:
  "LF \<notin> set l \<Longrightarrow> \<not> ends_with_CR l \<Longrightarrow> split_lines (l @ LF # rest) = l # split_lines rest"
proof (induction l)
  case Nil
  then show ?case by simp
next
  case (Cons c cs)
  show ?case
  proof (cases cs)
    case Nil
    with Cons.prems show ?thesis
      by (simp add: ends_with_CR_single)
  next
    case (Cons d ds)
    with Cons.prems have "\<not> ends_with_CR cs" "LF \<notin> set cs" "d \<noteq> LF" "c \<noteq> LF"
      by (auto simp: ends_with_CR_Cons)
    with Cons.IH Cons show ?thesis by simp
  qed
qed

lemma split_join:
  "ls \<noteq> [] \<Longrightarrow> \<forall>l\<in>set ls. clean_line l \<Longrightarrow> split_lines (join_lines ls) = ls"
proof (induction ls rule: join_lines.induct)
  case 1
  then show ?case by simp
next
  case (2 l)
  then show ?case by (simp add: split_lines_no_LF clean_line_def)
next
  case (3 l v va)
  then show ?case by (simp add: split_lines_append_LF clean_line_def)
qed

lemma split_lines_LF_free: "l \<in> set (split_lines s) \<Longrightarrow> LF \<notin> set l"
proof (induction s arbitrary: l)
  case Nil
  then show ?case by simp
next
  case (Cons c cs)
  show ?case
  proof (cases "c = LF \<or> (c = CR \<and> cs \<noteq> [] \<and> hd cs = LF)")
    case True
    then consider "c = LF" | "c = CR" "c \<noteq> LF" "cs \<noteq> []" "hd cs = LF"
      by (auto simp: CR_def LF_def)
    then show ?thesis
    proof cases
      case 1
      with Cons show ?thesis by auto
    next
      case 2
      then obtain ds where ds: "cs = LF # ds" by (cases cs) auto
      with 2 Cons.prems have "l = [] \<or> l \<in> set (split_lines ds)"
        by simp
      moreover have "l \<in> set (split_lines ds) \<Longrightarrow> l \<in> set (split_lines cs)"
        by (simp add: ds)
      ultimately show ?thesis using Cons.IH by auto
    qed
  next
    case False
    obtain m ms where m: "split_lines cs = m # ms"
      using split_lines_nonempty [of cs] by (cases "split_lines cs") auto
    with False Cons.prems have "l = c # m \<or> l \<in> set ms"
      by auto
    moreover have "LF \<notin> set m" "\<And>x. x \<in> set ms \<Longrightarrow> LF \<notin> set x"
      using Cons.IH m by auto
    moreover have "c \<noteq> LF" using False by simp
    ultimately show ?thesis by auto
  qed
qed


lemma ends_with_CR_mem: "ends_with_CR l \<Longrightarrow> CR \<in> set l"
  by (cases "rev l") (auto simp: ends_with_CR_def dest: arg_cong [where f = set])

lemma ends_with_CR_append:
  "ends_with_CR (a @ b) = (if b = [] then ends_with_CR a else ends_with_CR b)"
  by (cases "rev b") (auto simp: ends_with_CR_def)

lemma digitChar_cases:
  "d < 10 \<Longrightarrow> digitChar d \<in> {0x30, 0x31, 0x32, 0x33, 0x34, 0x35, 0x36, 0x37, 0x38, 0x39}"
proof -
  assume "d < 10"
  then have "d \<in> {0, 1, 2, 3, 4, 5, 6, 7, 8, 9}"
    by auto
  then show ?thesis
    by (auto simp: digitChar_def)
qed

lemma digitChar_plain: "d < 10 \<Longrightarrow> digitChar d \<noteq> LF \<and> digitChar d \<noteq> CR"
  using digitChar_cases [of d] by (auto simp: LF_def CR_def)

lemma decimal_plain: "LF \<notin> set (decimal n) \<and> CR \<notin> set (decimal n)"
proof (induction n rule: decimal.induct)
  case (1 n)
  show ?case
  proof (cases "n < 10")
    case True
    then show ?thesis
      using digitChar_plain [of n] by (subst (1 2) decimal.simps) auto
  next
    case False
    then show ?thesis
      using 1 digitChar_plain [of "n mod 10"] by (subst (1 2) decimal.simps) auto
  qed
qed

lemma String_of_plain: "LF \<notin> set (String_of v) \<and> CR \<notin> set (String_of v)"
  using decimal_plain by (auto simp: String_of_def LF_def CR_def)

lemma clean_literal_append:
  assumes "LF \<notin> set v" "\<not> ends_with_CR v"
  shows "clean_line (ascii ''# UPDATED: '' @ v)"
    and "clean_line (ascii ''# DOMAIN: '' @ v)"
    and "clean_line (ascii ''# DOMAIN-SUFFIX: '' @ v)"
    and "clean_line (ascii ''# TOTAL: '' @ v)"
  using assms
  by (simp_all add: clean_line_def ends_with_CR_append)
     (simp_all add: ascii_def LF_def CR_def ends_with_CR_def)

lemma clean_String_of:
  "clean_line (ascii ''# DOMAIN: '' @ String_of v)"
  "clean_line (ascii ''# DOMAIN-SUFFIX: '' @ String_of v)"
  "clean_line (ascii ''# TOTAL: '' @ String_of v)"
  using String_of_plain [of v] ends_with_CR_mem [of "String_of v"]
  by (auto intro!: clean_literal_append)

lemma clean_rewrite:
  "LF \<notin> set (updatedAt p) \<Longrightarrow> \<not> ends_with_CR (updatedAt p) \<Longrightarrow> clean_line l \<Longrightarrow>
   clean_line (rewrite_line p l)"
  by (simp add: rewrite_line_def clean_String_of clean_literal_append)

lemma startsWith_literal_other:
  "\<not> startsWith (ascii ''# UPDATED: '' @ v) (ascii ''# DOMAIN:'')"
  "\<not> startsWith (ascii ''# UPDATED: '' @ v) (ascii ''# DOMAIN-SUFFIX:'')"
  "\<not> startsWith (ascii ''# UPDATED: '' @ v) (ascii ''# TOTAL:'')"
  "\<not> startsWith (ascii ''# DOMAIN: '' @ v) (ascii ''# UPDATED:'')"
  "\<not> startsWith (ascii ''# DOMAIN: '' @ v) (ascii ''# DOMAIN-SUFFIX:'')"
  "\<not> startsWith (ascii ''# DOMAIN: '' @ v) (ascii ''# TOTAL:'')"
  "\<not> startsWith (ascii ''# DOMAIN-SUFFIX: '' @ v) (ascii ''# UPDATED:'')"
  "\<not> startsWith (ascii ''# DOMAIN-SUFFIX: '' @ v) (ascii ''# DOMAIN:'')"
  "\<not> startsWith (ascii ''# DOMAIN-SUFFIX: '' @ v) (ascii ''# TOTAL:'')"
  "\<not> startsWith (ascii ''# TOTAL: '' @ v) (ascii ''# UPDATED:'')"
  "\<not> startsWith (ascii ''# TOTAL: '' @ v) (ascii ''# DOMAIN:'')"
  "\<not> startsWith (ascii ''# TOTAL: '' @ v) (ascii ''# DOMAIN-SUFFIX:'')"
  by (simp_all add: startsWith_def ascii_def)

lemma rewrite_literal:
  "rewrite_line p (ascii ''# UPDATED: '' @ updatedAt p) = ascii ''# UPDATED: '' @ updatedAt p"
  "rewrite_line p (ascii ''# DOMAIN: '' @ String_of (domainCount p)) =
     ascii ''# DOMAIN: '' @ String_of (domainCount p)"
  "rewrite_line p (ascii ''# DOMAIN-SUFFIX: '' @ String_of (domainSuffixCount p)) =
     ascii ''# DOMAIN-SUFFIX: '' @ String_of (domainSuffixCount p)"
  "rewrite_line p (ascii ''# TOTAL: '' @ String_of (total p)) =
     ascii ''# TOTAL: '' @ String_of (total p)"
  by (simp_all add: rewrite_line_def startsWith_literal_append startsWith_literal_other)

lemma rewrite_idem: "rewrite_line p (rewrite_line p l) = rewrite_line p l"
proof (cases "is_header_line l")
  case True
  then show ?thesis
    unfolding is_header_line_def
    by (subst (2 3) rewrite_line_def) (auto simp: rewrite_literal)
next
  case False
  then show ?thesis by (simp add: rewrite_nonheader)
qed

lemma startsWith_rewrite:
  "startsWith (rewrite_line p l) (ascii ''# UPDATED:'') = startsWith l (ascii ''# UPDATED:'')"
  "startsWith (rewrite_line p l) (ascii ''# DOMAIN:'') = startsWith l (ascii ''# DOMAIN:'')"
  "startsWith (rewrite_line p l) (ascii ''# DOMAIN-SUFFIX:'') =
     startsWith l (ascii ''# DOMAIN-SUFFIX:'')"
  "startsWith (rewrite_line p l) (ascii ''# TOTAL:'') = startsWith l (ascii ''# TOTAL:'')"
  using header_exclusive [of l]
  by (auto simp: rewrite_line_def startsWith_literal_append startsWith_literal_other)


lemma set_insert_at: "set (insert_at k x xs) = insert x (set xs)"
proof -
  have "set (take k xs) \<union> set (drop k xs) = set (take k xs @ drop k xs)"
    by (rule set_append [symmetric])
  also have "take k xs @ drop k xs = xs"
    by (rule append_take_drop_id)
  finally have "set (take k xs) \<union> set (drop k xs) = set xs" .
  then show ?thesis
    by (simp add: insert_at_def)
qed

lemma set_add_if_missing:
  "set (add_if_missing b k x xs) = (if b then set xs else insert x (set xs))"
  by (simp add: add_if_missing_def set_insert_at)

lemma has_line_insert_at:
  "has_line pre (insert_at k x xs) = (startsWith x pre \<or> has_line pre xs)"
  by (simp add: has_line_def list_ex_iff set_insert_at)

lemma has_line_add_if_missing:
  "has_line pre (add_if_missing b k x xs) = ((\<not> b \<and> startsWith x pre) \<or> has_line pre xs)"
  by (simp add: has_line_def list_ex_iff set_add_if_missing)

lemma has_line_map_rewrite:
  "has_line (ascii ''# UPDATED:'') (map (rewrite_line p) ls) = has_line (ascii ''# UPDATED:'') ls"
  "has_line (ascii ''# DOMAIN:'') (map (rewrite_line p) ls) = has_line (ascii ''# DOMAIN:'') ls"
  "has_line (ascii ''# DOMAIN-SUFFIX:'') (map (rewrite_line p) ls) =
     has_line (ascii ''# DOMAIN-SUFFIX:'') ls"
  "has_line (ascii ''# TOTAL:'') (map (rewrite_line p) ls) = has_line (ascii ''# TOTAL:'') ls"
  by (simp_all add: has_line_def list_ex_iff startsWith_rewrite)

lemma has_line_output:
  "has_line (ascii ''# UPDATED:'') (updateListHeader_lines content p)"
  "has_line (ascii ''# DOMAIN:'') (updateListHeader_lines content p)"
  "has_line (ascii ''# DOMAIN-SUFFIX:'') (updateListHeader_lines content p)"
  "has_line (ascii ''# TOTAL:'') (updateListHeader_lines content p)"
  by (simp_all add: updateListHeader_lines_staged has_line_add_if_missing has_line_insert_at
        has_line_map_rewrite startsWith_literal_append startsWith_literal_other)

lemma output_lines_from:
  "set (updateListHeader_lines content p) \<subseteq>
     rewrite_line p ` set (split_lines content) \<union>
     {ascii ''# UPDATED: '' @ updatedAt p, ascii ''# DOMAIN: '' @ String_of (domainCount p),
      ascii ''# DOMAIN-SUFFIX: '' @ String_of (domainSuffixCount p),
      ascii ''# TOTAL: '' @ String_of (total p)}"
  unfolding updateListHeader_lines_staged set_add_if_missing
  by (auto simp: set_insert_at split: if_splits)

lemma idempotent_lines:
  assumes cr: "\<forall>l\<in>set (split_lines content). \<not> ends_with_CR l"
    and t: "LF \<notin> set (updatedAt p)" "\<not> ends_with_CR (updatedAt p)"
  shows "updateListHeader_lines (join_lines (updateListHeader_lines content p)) p =
         updateListHeader_lines content p"
proof -
  let ?out = "updateListHeader_lines content p"
  have clean0: "clean_line l" if "l \<in> set (split_lines content)" for l
    using that cr split_lines_LF_free [of l content] by (simp add: clean_line_def)
  have clean: "\<forall>l\<in>set ?out. clean_line l"
    using output_lines_from [of content p] clean0 t
    by (auto simp: clean_rewrite clean_String_of clean_literal_append)
  have fixed: "rewrite_line p l = l" if "l \<in> set ?out" for l
    using output_lines_from [of content p] that
    by (auto simp: rewrite_idem rewrite_literal)
  have ne: "?out \<noteq> []"
    using has_line_output(1) [of content p] by (auto simp: has_line_def)
  have sp: "split_lines (join_lines ?out) = ?out"
    using ne clean by (rule split_join)
  have mp: "map (rewrite_line p) ?out = ?out"
    using fixed by (simp add: map_idI)
  have st: "updateListHeader_lines (join_lines ?out) p =
     add_if_missing (has_line (ascii ''# TOTAL:'') (split_lines (join_lines ?out))) 4
       (ascii ''# TOTAL: '' @ String_of (total p))
       (add_if_missing (has_line (ascii ''# DOMAIN-SUFFIX:'') (split_lines (join_lines ?out))) 3
          (ascii ''# DOMAIN-SUFFIX: '' @ String_of (domainSuffixCount p))
          (add_if_missing (has_line (ascii ''# DOMAIN:'') (split_lines (join_lines ?out))) 2
             (ascii ''# DOMAIN: '' @ String_of (domainCount p))
             (if has_line (ascii ''# UPDATED:'') (split_lines (join_lines ?out))
              then map (rewrite_line p) (split_lines (join_lines ?out))
              else insert_at
                     (after_first_nonblank (map (rewrite_line p) (split_lines (join_lines ?out))))
                     (ascii ''# UPDATED: '' @ updatedAt p)
                     (map (rewrite_line p) (split_lines (join_lines ?out))))))"
    by (rule updateListHeader_lines_staged)
  show ?thesis
    unfolding st sp mp
    by (simp only: has_line_output add_if_missing_def if_True)
qed

text \<open>
  C3, as stated: a second run with the same timestamp and counts returns the output of
  the first run. This fails on the text \<open>a\<close> followed by a lone CR: the first run keeps
  the line \<open>a CR\<close> and joins the header lines to it with LF, and the second run reads
  that \<open>CR LF\<close> as one separator and drops the CR.
\<close>

theorem second_run_counterexample:
  "updateListHeader
     (updateListHeader [0x61, CR]
        \<lparr>updatedAt = ascii ''2024-01-02 03:04:05'', domainCount = 1, domainSuffixCount = 2,
         total = 3\<rparr>)
     \<lparr>updatedAt = ascii ''2024-01-02 03:04:05'', domainCount = 1, domainSuffixCount = 2,
      total = 3\<rparr> \<noteq>
   updateListHeader [0x61, CR]
     \<lparr>updatedAt = ascii ''2024-01-02 03:04:05'', domainCount = 1, domainSuffixCount = 2,
      total = 3\<rparr>"
  by code_simp

text \<open>
  C3, amended: for every text none of whose lines ends with a CR, every timestamp without
  LF that does not end with a CR, and all counts, a second run with the same timestamp and
  counts returns the output of the first run.
\<close>

theorem header_rewrite_idempotent:
  "\<forall>l\<in>set (split_lines content). \<not> ends_with_CR l \<Longrightarrow> LF \<notin> set (updatedAt p) \<Longrightarrow>
   \<not> ends_with_CR (updatedAt p) \<Longrightarrow>
   updateListHeader (updateListHeader content p) p = updateListHeader content p"
  unfolding updateListHeader_def by (rule arg_cong [where f = join_lines]) (rule idempotent_lines)

theorem header_rewrite_idempotent_witness:
  "updateListHeader
     (updateListHeader (ascii ''x,1'' @ LF # ascii ''# TOTAL: 9'' @ CR # LF # ascii '' y'')
        \<lparr>updatedAt = ascii ''2024-01-02 03:04:05'', domainCount = 1, domainSuffixCount = 2,
         total = 3\<rparr>)
     \<lparr>updatedAt = ascii ''2024-01-02 03:04:05'', domainCount = 1, domainSuffixCount = 2,
      total = 3\<rparr> =
   updateListHeader (ascii ''x,1'' @ LF # ascii ''# TOTAL: 9'' @ CR # LF # ascii '' y'')
     \<lparr>updatedAt = ascii ''2024-01-02 03:04:05'', domainCount = 1, domainSuffixCount = 2,
      total = 3\<rparr>"
proof -
  let ?c = "ascii ''x,1'' @ LF # ascii ''# TOTAL: 9'' @ CR # LF # ascii '' y''"
  let ?p = "\<lparr>updatedAt = ascii ''2024-01-02 03:04:05'', domainCount = 1,
             domainSuffixCount = 2, total = 3\<rparr>"
  have 1: "\<forall>l\<in>set (split_lines ?c). \<not> ends_with_CR l"
    by code_simp
  have 2: "LF \<notin> set (updatedAt ?p)"
    by code_simp
  have 3: "\<not> ends_with_CR (updatedAt ?p)"
    by code_simp
  show ?thesis
    by (rule header_rewrite_idempotent [OF 1 2 3])
qed

lemma split_lines_append_LF_any:
  "LF \<notin> set l \<Longrightarrow> split_lines (l @ LF # rest) = drop_final_CR l # split_lines rest"
proof (induction l)
  case Nil
  then show ?case by (simp add: drop_final_CR_def ends_with_CR_def)
next
  case (Cons c cs)
  show ?case
  proof (cases cs)
    case Nil
    with Cons.prems show ?thesis
      by (simp add: drop_final_CR_def ends_with_CR_single)
  next
    case (Cons d ds)
    with Cons.prems have "LF \<notin> set cs" "d \<noteq> LF" "c \<noteq> LF" "cs \<noteq> []"
      by auto
    moreover from this have "drop_final_CR (c # cs) = c # drop_final_CR cs"
      by (simp add: drop_final_CR_def ends_with_CR_Cons)
    ultimately show ?thesis
      using Cons.IH Cons by simp
  qed
qed

lemma split_join_any:
  "ls \<noteq> [] \<Longrightarrow> \<forall>l\<in>set ls. LF \<notin> set l \<Longrightarrow>
   split_lines (join_lines ls) = map drop_final_CR (butlast ls) @ [last ls]"
proof (induction ls rule: join_lines.induct)
  case 1
  then show ?case by simp
next
  case (2 l)
  then show ?case by (simp add: split_lines_no_LF)
next
  case (3 l v va)
  then show ?case by (simp add: split_lines_append_LF_any)
qed

lemma filter_map_unchanged:
  "\<forall>l\<in>set ls. P (f l) = P l \<and> (P l \<longrightarrow> f l = l) \<Longrightarrow> filter P (map f ls) = filter P ls"
  by (induction ls) auto

lemma filter_split_join:
  assumes "ls \<noteq> []" and "\<forall>l\<in>set ls. LF \<notin> set l"
    and "\<forall>l\<in>set ls. P (drop_final_CR l) = P l \<and> (P l \<longrightarrow> drop_final_CR l = l)"
  shows "filter P (split_lines (join_lines ls)) = filter P ls"
proof -
  have "\<forall>l\<in>set (butlast ls). P (drop_final_CR l) = P l \<and> (P l \<longrightarrow> drop_final_CR l = l)"
    using assms(3) by (auto dest: in_set_butlastD)
  then have m: "filter P (map drop_final_CR (butlast ls)) = filter P (butlast ls)"
    by (rule filter_map_unchanged)
  have e: "split_lines (join_lines ls) = map drop_final_CR (butlast ls) @ [last ls]"
    using assms(1,2) by (rule split_join_any)
  have "filter P (split_lines (join_lines ls)) =
        filter P (map drop_final_CR (butlast ls)) @ filter P [last ls]"
    unfolding e by (rule filter_append)
  also have "\<dots> = filter P (butlast ls @ [last ls])"
    by (simp only: m filter_append)
  also have "butlast ls @ [last ls] = ls"
    using assms(1) by (rule append_butlast_last_id)
  finally show ?thesis .
qed

lemma drop_final_CR_literal:
  "is_header_line (drop_final_CR (ascii ''# UPDATED: '' @ v))"
  "is_header_line (drop_final_CR (ascii ''# DOMAIN: '' @ v))"
  "is_header_line (drop_final_CR (ascii ''# DOMAIN-SUFFIX: '' @ v))"
  "is_header_line (drop_final_CR (ascii ''# TOTAL: '' @ v))"
proof -
  have *: "drop_final_CR (a @ v) = (if v = [] then drop_final_CR a else a @ drop_final_CR v)" for a
    by (simp add: drop_final_CR_def ends_with_CR_append butlast_append)
  have lits: "drop_final_CR (ascii ''# UPDATED: '') = ascii ''# UPDATED: ''"
    "drop_final_CR (ascii ''# DOMAIN: '') = ascii ''# DOMAIN: ''"
    "drop_final_CR (ascii ''# DOMAIN-SUFFIX: '') = ascii ''# DOMAIN-SUFFIX: ''"
    "drop_final_CR (ascii ''# TOTAL: '') = ascii ''# TOTAL: ''"
    by code_simp+
  show "is_header_line (drop_final_CR (ascii ''# UPDATED: '' @ v))"
    "is_header_line (drop_final_CR (ascii ''# DOMAIN: '' @ v))"
    "is_header_line (drop_final_CR (ascii ''# DOMAIN-SUFFIX: '' @ v))"
    "is_header_line (drop_final_CR (ascii ''# TOTAL: '' @ v))"
    using is_header_literal [of "[]"] is_header_literal [of "drop_final_CR v"]
    by (simp_all add: * lits)
qed

lemma rewrite_line_header_kept:
  assumes "is_header_line l"
  shows "is_header_line (drop_final_CR (rewrite_line p l))"
proof -
  consider "rewrite_line p l = ascii ''# UPDATED: '' @ updatedAt p"
    | "rewrite_line p l = ascii ''# DOMAIN: '' @ String_of (domainCount p)"
    | "rewrite_line p l = ascii ''# DOMAIN-SUFFIX: '' @ String_of (domainSuffixCount p)"
    | "rewrite_line p l = ascii ''# TOTAL: '' @ String_of (total p)"
    using assms unfolding rewrite_line_def is_header_line_def by presburger
  then show ?thesis
    by cases (simp_all only: drop_final_CR_literal)
qed

lemma output_line_LF_free:
  assumes "LF \<notin> set (updatedAt p)" and "l \<in> set (updateListHeader_lines content p)"
  shows "LF \<notin> set l"
proof -
  have lit: "LF \<notin> set (ascii ''# UPDATED: '')" "LF \<notin> set (ascii ''# DOMAIN: '')"
    "LF \<notin> set (ascii ''# DOMAIN-SUFFIX: '')" "LF \<notin> set (ascii ''# TOTAL: '')"
    by code_simp+
  have r: "LF \<notin> set (rewrite_line p x)" if "x \<in> set (split_lines content)" for x
    using that assms(1) lit String_of_plain split_lines_LF_free [of x content]
    by (simp add: rewrite_line_def)
  show ?thesis
    using output_lines_from [of content p] assms r lit String_of_plain by auto
qed

lemma output_line_chop:
  assumes cr: "\<forall>x\<in>set (split_lines content). \<not> is_header_line x \<longrightarrow> \<not> ends_with_CR x"
    and l: "l \<in> set (updateListHeader_lines content p)"
  shows "(\<not> is_header_line (drop_final_CR l)) = (\<not> is_header_line l) \<and>
         (\<not> is_header_line l \<longrightarrow> drop_final_CR l = l)"
proof -
  have "l \<in> rewrite_line p ` set (split_lines content) \<union>
     {ascii ''# UPDATED: '' @ updatedAt p, ascii ''# DOMAIN: '' @ String_of (domainCount p),
      ascii ''# DOMAIN-SUFFIX: '' @ String_of (domainSuffixCount p),
      ascii ''# TOTAL: '' @ String_of (total p)}"
    using output_lines_from [of content p] l by (rule subsetD)
  then consider
      x where "x \<in> set (split_lines content)" "l = rewrite_line p x" "is_header_line x"
    | x where "x \<in> set (split_lines content)" "l = rewrite_line p x" "\<not> is_header_line x"
    | "l = ascii ''# UPDATED: '' @ updatedAt p"
    | "l = ascii ''# DOMAIN: '' @ String_of (domainCount p)"
    | "l = ascii ''# DOMAIN-SUFFIX: '' @ String_of (domainSuffixCount p)"
    | "l = ascii ''# TOTAL: '' @ String_of (total p)"
    by blast
  then show ?thesis
  proof cases
    case 1
    then show ?thesis
      by (simp add: rewrite_line_header_kept is_header_rewrite)
  next
    case 2
    then have "l = x" "\<not> ends_with_CR x"
      using cr by (simp_all add: rewrite_nonheader)
    then show ?thesis by (simp add: drop_final_CR_def)
  qed (simp_all add: drop_final_CR_literal is_header_literal)
qed

lemma output_text_non_header:
  assumes "LF \<notin> set (updatedAt p)"
    and "\<forall>x\<in>set (split_lines content). \<not> is_header_line x \<longrightarrow> \<not> ends_with_CR x"
  shows "filter (\<lambda>l. \<not> is_header_line l) (split_lines (updateListHeader content p)) =
         filter (\<lambda>l. \<not> is_header_line l) (split_lines content)"
proof -
  let ?out = "updateListHeader_lines content p"
  have ne: "?out \<noteq> []"
    using has_line_output(1) [of content p] by (auto simp: has_line_def)
  have lf: "\<forall>l\<in>set ?out. LF \<notin> set l"
    using assms(1) by (auto dest: output_line_LF_free)
  have ch: "\<forall>l\<in>set ?out. (\<not> is_header_line (drop_final_CR l)) = (\<not> is_header_line l) \<and>
              (\<not> is_header_line l \<longrightarrow> drop_final_CR l = l)"
    using assms(2) by (blast dest: output_line_chop)
  have "filter (\<lambda>l. \<not> is_header_line l) (split_lines (join_lines ?out)) =
        filter (\<lambda>l. \<not> is_header_line l) ?out"
    using ne lf ch by (rule filter_split_join)
  then show ?thesis
    by (simp only: updateListHeader_def non_header_kept)
qed


lemma non_header_line_eq: "non_header_line = (\<lambda>l. \<not> is_header_line l)"
  by (simp add: fun_eq_iff non_header_line_def)

text \<open>
  C4, as stated: every line that begins with none of the four prefixes appears in the
  output unchanged. This fails on the text \<open>a\<close> followed by a lone CR: the input line is
  \<open>a CR\<close>, and in the output it is followed by LF, so that the output, split the same
  way, has the line \<open>a\<close> in its place.
\<close>

theorem output_lines_counterexample:
  "filter non_header_line
     (split_lines
        (updateListHeader [0x61, CR]
           \<lparr>updatedAt = ascii ''2024-01-02 03:04:05'', domainCount = 1, domainSuffixCount = 2,
            total = 3\<rparr>)) \<noteq>
   filter non_header_line (split_lines [0x61, CR])"
  by code_simp

text \<open>
  C4, amended: for every timestamp without LF and every text none of whose lines that
  begin with none of the four prefixes ends with a CR, the lines of the output text (split
  at LF or CR LF, as the input is) that begin with none of the four prefixes are exactly
  those lines of the input, unchanged and in the same order.
\<close>

theorem non_header_lines_of_output:
  "LF \<notin> set (updatedAt p) \<Longrightarrow>
   \<forall>x\<in>set (split_lines content). non_header_line x \<longrightarrow> \<not> ends_with_CR x \<Longrightarrow>
   filter non_header_line (split_lines (updateListHeader content p)) =
   filter non_header_line (split_lines content)"
  unfolding non_header_line_eq by (rule output_text_non_header)

theorem non_header_lines_of_output_witness:
  "filter non_header_line
     (split_lines
        (updateListHeader
           (ascii ''foo,1'' @ LF # ascii ''# DOMAIN: 5'' @ CR # CR # LF # ascii ''bar'' @ CR # LF #
            ascii '' y'')
           \<lparr>updatedAt = ascii ''2024-01-02 03:04:05'', domainCount = 1, domainSuffixCount = 2,
            total = 3\<rparr>)) =
   [ascii ''foo,1'', ascii ''bar'', ascii '' y'']"
proof -
  let ?c = "ascii ''foo,1'' @ LF # ascii ''# DOMAIN: 5'' @ CR # CR # LF # ascii ''bar'' @ CR # LF #
            ascii '' y''"
  let ?p = "\<lparr>updatedAt = ascii ''2024-01-02 03:04:05'', domainCount = 1,
             domainSuffixCount = 2, total = 3\<rparr>"
  have 1: "LF \<notin> set (updatedAt ?p)"
    by code_simp
  have 2: "\<forall>x\<in>set (split_lines ?c). non_header_line x \<longrightarrow> \<not> ends_with_CR x"
    by code_simp
  have 3: "filter non_header_line (split_lines ?c) = [ascii ''foo,1'', ascii ''bar'', ascii '' y'']"
    by code_simp
  show ?thesis
    using non_header_lines_of_output [OF 1 2] by (simp only: 3)
qed

section \<open>Properties of the README rewrite\<close>

text \<open>
  C10: with the empty string as template name, a line that starts without the label, is
  no table row and holds no datetime placeholder is returned unchanged, also when it holds
  the template-name placeholder.
\<close>

theorem empty_template_name_keeps_line:
  "tempName p = Some [] \<Longrightarrow> \<not> startsWith line updatedAtPrefix \<Longrightarrow>
   match_rows (tableMatchers p) line = None \<Longrightarrow> \<not> includes_str line datetimeToken \<Longrightarrow>
   includes_str line tempNameToken \<Longrightarrow> updateReadme_line p line = line"
  by (simp add: updateReadme_line_def)

theorem empty_template_name_keeps_line_witness:
  "includes_str (ascii ''# ${{ TempName }} rules'') tempNameToken \<and>
   updateReadme_line
     \<lparr>updatedAt = ascii ''t'', domainCount = 1, domainSuffixCount = 2, total = 3,
      tempName = Some []\<rparr>
     (ascii ''# ${{ TempName }} rules'') = ascii ''# ${{ TempName }} rules''"
proof -
  let ?p = "\<lparr>updatedAt = ascii ''t'', domainCount = 1, domainSuffixCount = 2, total = 3,
             tempName = Some []\<rparr>"
  let ?l = "ascii ''# ${{ TempName }} rules''"
  have 1: "tempName ?p = Some []" by simp
  have 2: "\<not> startsWith ?l updatedAtPrefix" by code_simp
  have 3: "match_rows (tableMatchers ?p) ?l = None" by code_simp
  have 4: "\<not> includes_str ?l datetimeToken" by code_simp
  have 5: "includes_str ?l tempNameToken" by code_simp
  from empty_template_name_keeps_line [OF 1 2 3 4 5] 5 show ?thesis
    by (simp only: simp_thms)
qed

lemma rx_lit: "rx_test (lit k @ r) (k @ s) = rx_test r s"
  by (induction k) (simp_all add: lit_def)

lemma rx_lit_Cons: "rx_test (lit (k # ks) @ r) (c # s) = (c = k \<and> rx_test (lit ks @ r) s)"
  by (simp add: lit_def)

lemma rx_many_skip: "list_all P w \<Longrightarrow> rx_test r s \<Longrightarrow> rx_test (Many P # r) (w @ s)"
proof (induction w)
  case Nil
  then show ?case by (cases s) simp_all
next
  case (Cons c w)
  then show ?case by simp
qed

lemma rx_many_one:
  "(\<And>c. P c \<Longrightarrow> \<not> Q c) \<Longrightarrow>
   rx_test (Many P # One Q # r) s = rx_test (One Q # r) (dropWhile P s)"
  by (induction s) auto

lemma rx_many_lit:
  "\<not> P k \<Longrightarrow> rx_test (Many P # lit (k # ks) @ r) s = rx_test (lit (k # ks) @ r) (dropWhile P s)"
  unfolding lit_def list.map append_Cons by (rule rx_many_one) auto

lemma dropWhile_ws_key:
  "list_all P w \<Longrightarrow> \<not> P k \<Longrightarrow> dropWhile P (w @ k # s) = k # s"
  by (induction w) simp_all

lemma not_ws_literals:
  "\<not> isWhiteSpace 0x7C" "\<not> isWhiteSpace 0x44" "\<not> isWhiteSpace 0x54" "\<not> isWhiteSpace 0x2D"
  by (simp_all add: isWhiteSpace_def)

lemma row_regex_Cons:
  "row_regex key =
     One (\<lambda>c. c = 0x7C) # Many isWhiteSpace # lit key @
     (Many isWhiteSpace # lit [0x7C] @
      (Many isWhiteSpace # One isDigit # Many isDigit # Many isWhiteSpace # lit [0x7C] @ []))"
  by (simp add: row_regex_def lit_def)

lemma row_matches:
  assumes w: "list_all isWhiteSpace w1" "list_all isWhiteSpace w2" "list_all isWhiteSpace w3"
      "list_all isWhiteSpace w4"
    and ds: "ds \<noteq> []" "list_all isDigit ds"
  shows "rx_test (row_regex key) (0x7C # w1 @ key @ w2 @ 0x7C # w3 @ ds @ w4 @ [0x7C])"
proof -
  obtain d ds' where d: "ds = d # ds'" "isDigit d" "list_all isDigit ds'"
    using ds by (cases ds) auto
  have 1: "rx_test (lit [0x7C] @ []) [0x7C]"
    by (simp add: lit_def)
  have 2: "rx_test (Many isWhiteSpace # lit [0x7C] @ []) (w4 @ [0x7C])"
    using w(4) 1 by (rule rx_many_skip)
  have 3: "rx_test (Many isDigit # Many isWhiteSpace # lit [0x7C] @ []) (ds' @ w4 @ [0x7C])"
    using d(3) 2 by (rule rx_many_skip)
  have 4: "rx_test (One isDigit # Many isDigit # Many isWhiteSpace # lit [0x7C] @ [])
             (ds @ w4 @ [0x7C])"
    using d 3 by simp
  have 5: "rx_test (Many isWhiteSpace # One isDigit # Many isDigit # Many isWhiteSpace #
                    lit [0x7C] @ []) (w3 @ ds @ w4 @ [0x7C])"
    using w(3) 4 by (rule rx_many_skip)
  have 6: "rx_test (lit [0x7C] @ (Many isWhiteSpace # One isDigit # Many isDigit #
                    Many isWhiteSpace # lit [0x7C] @ [])) ([0x7C] @ w3 @ ds @ w4 @ [0x7C])"
    using 5 by (simp only: rx_lit)
  have 7: "rx_test (Many isWhiteSpace # lit [0x7C] @ (Many isWhiteSpace # One isDigit #
                    Many isDigit # Many isWhiteSpace # lit [0x7C] @ []))
             (w2 @ [0x7C] @ w3 @ ds @ w4 @ [0x7C])"
    using w(2) 6 by (rule rx_many_skip)
  have 8: "rx_test (lit key @ (Many isWhiteSpace # lit [0x7C] @ (Many isWhiteSpace #
                    One isDigit # Many isDigit # Many isWhiteSpace # lit [0x7C] @ [])))
             (key @ w2 @ [0x7C] @ w3 @ ds @ w4 @ [0x7C])"
    using 7 by (simp only: rx_lit)
  have 9: "rx_test (Many isWhiteSpace # lit key @ (Many isWhiteSpace # lit [0x7C] @
                    (Many isWhiteSpace # One isDigit # Many isDigit # Many isWhiteSpace #
                     lit [0x7C] @ [])))
             (w1 @ key @ w2 @ [0x7C] @ w3 @ ds @ w4 @ [0x7C])"
    using w(1) 8 by (rule rx_many_skip)
  show ?thesis
    unfolding row_regex_Cons using 9 by simp
qed

text \<open>A row of another key is refused by the expression of an earlier key.\<close>

lemma row_refused_first_char:
  assumes "list_all isWhiteSpace w1" "\<not> isWhiteSpace k" "\<not> isWhiteSpace c" "c \<noteq> k"
  shows "\<not> rx_test (row_regex (k # ks)) (0x7C # w1 @ c # rest)"
  unfolding row_regex_Cons using assms
  by (simp add: rx_many_lit dropWhile_ws_key rx_lit_Cons)

lemma DOMAIN_refuses_SUFFIX:
  assumes "list_all isWhiteSpace w1"
  shows "\<not> rx_test (row_regex (ascii ''DOMAIN'')) (0x7C # w1 @ ascii ''DOMAIN-SUFFIX'' @ rest)"
proof -
  have k: "ascii ''DOMAIN-SUFFIX'' @ rest = ascii ''DOMAIN'' @ 0x2D # ascii ''SUFFIX'' @ rest"
    by (simp add: ascii_def)
  have d: "ascii ''DOMAIN'' = 0x44 # ascii ''OMAIN''"
    by (simp add: ascii_def)
  have "dropWhile isWhiteSpace (w1 @ ascii ''DOMAIN'' @ 0x2D # ascii ''SUFFIX'' @ rest) =
        ascii ''DOMAIN'' @ 0x2D # ascii ''SUFFIX'' @ rest"
    unfolding d append_Cons using assms not_ws_literals(2) by (rule dropWhile_ws_key)
  moreover have "rx_test (Many isWhiteSpace # lit (ascii ''DOMAIN'') @ r) s =
                 rx_test (lit (ascii ''DOMAIN'') @ r) (dropWhile isWhiteSpace s)" for r s
    unfolding d using not_ws_literals(2) by (rule rx_many_lit)
  moreover have "\<not> rx_test (Many isWhiteSpace # lit [0x7C] @ r) (0x2D # s)" for r s
    using not_ws_literals by (simp add: rx_many_lit rx_lit_Cons)
  ultimately show ?thesis
    unfolding row_regex_Cons k by (simp add: rx_lit)
qed


lemma TOTAL_refused:
  assumes "list_all isWhiteSpace w1"
  shows "\<not> rx_test (row_regex (ascii ''DOMAIN'')) (0x7C # w1 @ ascii ''TOTAL'' @ rest)"
    and "\<not> rx_test (row_regex (ascii ''DOMAIN-SUFFIX'')) (0x7C # w1 @ ascii ''TOTAL'' @ rest)"
proof -
  have t: "ascii ''TOTAL'' @ rest = 0x54 # ascii ''OTAL'' @ rest"
    by (simp add: ascii_def)
  have d: "ascii ''DOMAIN'' = 0x44 # ascii ''OMAIN''"
    "ascii ''DOMAIN-SUFFIX'' = 0x44 # ascii ''OMAIN-SUFFIX''"
    by (simp_all add: ascii_def)
  show "\<not> rx_test (row_regex (ascii ''DOMAIN'')) (0x7C # w1 @ ascii ''TOTAL'' @ rest)"
    unfolding t d using assms not_ws_literals by (intro row_refused_first_char) simp_all
  show "\<not> rx_test (row_regex (ascii ''DOMAIN-SUFFIX'')) (0x7C # w1 @ ascii ''TOTAL'' @ rest)"
    unfolding t d using assms not_ws_literals by (intro row_refused_first_char) simp_all
qed

lemma match_rows_shape:
  assumes kv: "(key, v) \<in> set (tableMatchers p)"
    and w: "list_all isWhiteSpace w1" "list_all isWhiteSpace w2" "list_all isWhiteSpace w3"
      "list_all isWhiteSpace w4"
    and ds: "ds \<noteq> []" "list_all isDigit ds"
  shows "match_rows (tableMatchers p) (0x7C # w1 @ key @ w2 @ 0x7C # w3 @ ds @ w4 @ [0x7C]) =
         Some (render_row key v)"
proof -
  let ?line = "\<lambda>key. 0x7C # w1 @ key @ w2 @ 0x7C # w3 @ ds @ w4 @ [0x7C]"
  have m: "rx_test (row_regex k) (?line k)" for k
    using w ds by (rule row_matches)
  from kv consider
      "key = ascii ''DOMAIN''" "v = domainCount p"
    | "key = ascii ''DOMAIN-SUFFIX''" "v = domainSuffixCount p"
    | "key = ascii ''TOTAL''" "v = total p"
    by (auto simp: tableMatchers_def)
  then show ?thesis
  proof cases
    case 1
    then show ?thesis using m [of key] by (simp add: tableMatchers_def)
  next
    case 2
    have "\<not> rx_test (row_regex (ascii ''DOMAIN'')) (?line (ascii ''DOMAIN-SUFFIX''))"
      using w(1) by (rule DOMAIN_refuses_SUFFIX)
    with 2 show ?thesis using m [of key] by (simp add: tableMatchers_def)
  next
    case 3
    have "\<not> rx_test (row_regex (ascii ''DOMAIN'')) (?line (ascii ''TOTAL''))"
      "\<not> rx_test (row_regex (ascii ''DOMAIN-SUFFIX'')) (?line (ascii ''TOTAL''))"
      using w(1) by (rule TOTAL_refused)+
    with 3 show ?thesis using m [of key] by (simp add: tableMatchers_def)
  qed
qed

lemma pipe_not_label: "\<not> startsWith (0x7C # s) updatedAtPrefix"
  by (simp add: startsWith_def updatedAtPrefix_def)

lemma updateReadme_line_row:
  assumes "(key, v) \<in> set (tableMatchers p)"
    and "list_all isWhiteSpace w1" "list_all isWhiteSpace w2" "list_all isWhiteSpace w3"
      "list_all isWhiteSpace w4"
    and "ds \<noteq> []" "list_all isDigit ds"
  shows "updateReadme_line p (0x7C # w1 @ key @ w2 @ 0x7C # w3 @ ds @ w4 @ [0x7C]) =
         render_row key v"
  unfolding updateReadme_line_def match_rows_shape [OF assms]
  by (simp add: pipe_not_label)

lemma DOMAIN_3_row:
  "ascii ''| DOMAIN         | 3     |'' =
     0x7C # [0x20] @ ascii ''DOMAIN'' @ replicate 9 0x20 @ 0x7C # [0x20] @ [0x33] @
     replicate 5 0x20 @ [0x7C]"
  by code_simp

lemma DOMAIN_3_rendered: "render_row (ascii ''DOMAIN'') 3 = ascii ''| DOMAIN         | 3     |''"
  by code_simp

text \<open>
  C6: a line made of a pipe, whitespace, one of the keys DOMAIN, DOMAIN-SUFFIX and TOTAL,
  whitespace, a pipe, whitespace, one or more digits, whitespace and a last pipe (each
  whitespace may be empty) is replaced by \<open>| \<close>, the key padded with spaces to 14
  characters, \<open> | \<close>, the decimal count of that key padded to 5 characters and \<open> |\<close>. With
  the DOMAIN count 3 the line \<open>| DOMAIN         | 3     |\<close> is returned as it is.
\<close>

theorem table_row_rendered:
  "((key, v) \<in> set (tableMatchers p) \<and> list_all isWhiteSpace w1 \<and> list_all isWhiteSpace w2 \<and>
    list_all isWhiteSpace w3 \<and> list_all isWhiteSpace w4 \<and> ds \<noteq> [] \<and> list_all isDigit ds \<longrightarrow>
    updateReadme_line p (0x7C # w1 @ key @ w2 @ 0x7C # w3 @ ds @ w4 @ [0x7C]) =
      ascii ''| '' @ padEnd key 14 @ ascii '' | '' @ padEnd (String_of v) 5 @ ascii '' |'') \<and>
   (domainCount p = 3 \<longrightarrow>
    updateReadme_line p (ascii ''| DOMAIN         | 3     |'') = ascii ''| DOMAIN         | 3     |'')"
proof (intro conjI impI)
  assume "(key, v) \<in> set (tableMatchers p) \<and> list_all isWhiteSpace w1 \<and>
    list_all isWhiteSpace w2 \<and> list_all isWhiteSpace w3 \<and> list_all isWhiteSpace w4 \<and>
    ds \<noteq> [] \<and> list_all isDigit ds"
  then have "updateReadme_line p (0x7C # w1 @ key @ w2 @ 0x7C # w3 @ ds @ w4 @ [0x7C]) =
      render_row key v"
    by (blast intro: updateReadme_line_row)
  then show "updateReadme_line p (0x7C # w1 @ key @ w2 @ 0x7C # w3 @ ds @ w4 @ [0x7C]) =
      ascii ''| '' @ padEnd key 14 @ ascii '' | '' @ padEnd (String_of v) 5 @ ascii '' |''"
    by (simp only: render_row_def)
next
  assume c: "domainCount p = 3"
  have "(ascii ''DOMAIN'', 3) \<in> set (tableMatchers p)"
    using c by (simp add: tableMatchers_def)
  moreover have "list_all isWhiteSpace [0x20]" "list_all isWhiteSpace (replicate 9 0x20)"
    "list_all isWhiteSpace (replicate 5 0x20)"
    by (simp_all add: isWhiteSpace_def list_all_iff)
  moreover have "[0x33] \<noteq> []" "list_all isDigit [0x33]"
    by (simp_all add: isDigit_def)
  ultimately have "updateReadme_line p
      (0x7C # [0x20] @ ascii ''DOMAIN'' @ replicate 9 0x20 @ 0x7C # [0x20] @ [0x33] @
       replicate 5 0x20 @ [0x7C]) = render_row (ascii ''DOMAIN'') 3"
    by (intro updateReadme_line_row)
  then show "updateReadme_line p (ascii ''| DOMAIN         | 3     |'') =
      ascii ''| DOMAIN         | 3     |''"
    by (simp only: DOMAIN_3_row [symmetric] DOMAIN_3_rendered)
qed

theorem table_row_rendered_witness:
  "updateReadme_line
     \<lparr>updatedAt = ascii ''t'', domainCount = 3, domainSuffixCount = 12, total = 15,
      tempName = None\<rparr>
     (ascii ''|DOMAIN-SUFFIX|   007  |'') = ascii ''| DOMAIN-SUFFIX  | 12    |''"
proof -
  let ?p = "\<lparr>updatedAt = ascii ''t'', domainCount = 3, domainSuffixCount = 12, total = 15,
             tempName = None\<rparr>"
  have h: "(ascii ''DOMAIN-SUFFIX'', 12) \<in> set (tableMatchers ?p) \<and> list_all isWhiteSpace [] \<and>
      list_all isWhiteSpace [] \<and> list_all isWhiteSpace (ascii ''   '') \<and>
      list_all isWhiteSpace (ascii ''  '') \<and> ascii ''007'' \<noteq> [] \<and> list_all isDigit (ascii ''007'')"
    by code_simp
  have l: "0x7C # [] @ ascii ''DOMAIN-SUFFIX'' @ [] @ 0x7C # ascii ''   '' @ ascii ''007'' @
           ascii ''  '' @ [0x7C] = ascii ''|DOMAIN-SUFFIX|   007  |''"
    by code_simp
  have r: "ascii ''| '' @ padEnd (ascii ''DOMAIN-SUFFIX'') 14 @ ascii '' | '' @
           padEnd (String_of 12) 5 @ ascii '' |'' = ascii ''| DOMAIN-SUFFIX  | 12    |''"
    by code_simp
  have d: "domainCount ?p = 3"
    by simp
  from table_row_rendered
         [of "ascii ''DOMAIN-SUFFIX''" 12 ?p "[]" "[]" "ascii ''   ''" "ascii ''  ''" "ascii ''007''"]
  show ?thesis
    using h by (simp only: l r simp_thms)
qed

lemma getSubstitution_plain: "\<not> has_dollar_pattern r \<Longrightarrow> getSubstitution m b a r = r"
  by (induction m b a r rule: getSubstitution.induct) auto

lemma includes_str_drop:
  "j \<le> length s \<Longrightarrow> startsWith (drop j s) t \<Longrightarrow> includes_str s t"
proof (induction s arbitrary: j)
  case Nil
  then show ?case by (simp add: startsWith_def)
next
  case (Cons c cs)
  then show ?case by (cases j) auto
qed

lemma includes_str_iff: "includes_str s t = (\<exists>j\<le>length s. startsWith (drop j s) t)"
proof
  show "includes_str s t \<Longrightarrow> \<exists>j\<le>length s. startsWith (drop j s) t"
  proof (induction s)
    case Nil
    then show ?case by (simp add: startsWith_def)
  next
    case (Cons c cs)
    show ?case
    proof (cases "startsWith (c # cs) t")
      case True
      then have "startsWith (drop 0 (c # cs)) t" by simp
      then show ?thesis by blast
    next
      case False
      with Cons obtain j where "j \<le> length cs" "startsWith (drop j cs) t" by auto
      then have "Suc j \<le> length (c # cs)" "startsWith (drop (Suc j) (c # cs)) t" by simp_all
      then show ?thesis by blast
    qed
  qed
qed (auto intro: includes_str_drop)

text \<open>An occurrence that begins inside \<open>p\<close> lies inside \<open>p @ butlast tok\<close>.\<close>

lemma no_start_inside:
  assumes n: "\<not> includes_str (p @ butlast tok) tok" and j: "j < length p"
  shows "\<not> startsWith (drop j (p @ tok @ rest)) tok"
proof
  assume s: "startsWith (drop j (p @ tok @ rest)) tok"
  have tok: "tok \<noteq> []"
    using n by (auto simp: includes_str_iff startsWith_def)
  then have split: "p @ tok @ rest = (p @ butlast tok) @ last tok # rest"
    by simp
  have len: "j + length tok \<le> length (p @ butlast tok)"
    using j tok by (cases tok rule: rev_cases) auto
  have "take (length tok) (drop j ((p @ butlast tok) @ last tok # rest)) =
        take (length tok) (drop j (p @ butlast tok))"
    using len by simp
  with s have "startsWith (drop j (p @ butlast tok)) tok"
    unfolding split startsWith_def by simp
  moreover have "j \<le> length (p @ butlast tok)"
    using len by simp
  ultimately have "includes_str (p @ butlast tok) tok"
    by (rule includes_str_drop [rotated])
  with n show False ..
qed

lemma no_start_inside_Cons:
  assumes "\<not> includes_str ((c # p) @ butlast tok) tok"
  shows "\<not> startsWith (c # p @ tok @ rest) tok" and "\<not> includes_str (p @ butlast tok) tok"
proof -
  show "\<not> startsWith (c # p @ tok @ rest) tok"
    using no_start_inside [OF assms, of 0 rest] by simp
  show "\<not> includes_str (p @ butlast tok) tok"
    using assms by simp
qed

lemma replace_from_match:
  "s \<noteq> [] \<Longrightarrow> startsWith s pat \<Longrightarrow>
   replace_from b s pat rep =
     getSubstitution pat b (drop (length pat) s) rep @ drop (length pat) s"
  by (cases s) simp_all

lemma replace_from_first:
  "\<not> includes_str (p @ butlast tok) tok \<Longrightarrow>
   replace_from b (p @ tok @ rest) tok rep = p @ getSubstitution tok (b @ p) rest rep @ rest"
proof (induction p arbitrary: b)
  case Nil
  then have tok: "tok \<noteq> []"
    by (auto simp: includes_str_iff startsWith_def)
  then have "tok @ rest \<noteq> []"
    by simp
  moreover have "startsWith (tok @ rest) tok"
    by (simp add: startsWith_def)
  ultimately have "replace_from b (tok @ rest) tok rep =
      getSubstitution tok b (drop (length tok) (tok @ rest)) rep @ drop (length tok) (tok @ rest)"
    by (rule replace_from_match)
  then show ?case by simp
next
  case (Cons c p)
  from no_start_inside_Cons [OF Cons.prems]
  have 1: "\<not> startsWith (c # p @ tok @ rest) tok" and 2: "\<not> includes_str (p @ butlast tok) tok"
    by blast+
  show ?case
    using 1 Cons.IH [OF 2, of "b @ [c]"] by simp
qed

lemma replaceAll_from_piece:
  "\<not> includes_str (p @ butlast tok) tok \<Longrightarrow>
   replaceAll_from b (p @ tok @ rest) tok rep =
     p @ getSubstitution tok (b @ p) rest rep @ replaceAll_from (b @ p @ tok) rest tok rep"
proof (induction p arbitrary: b)
  case Nil
  then have tok: "tok \<noteq> []"
    by (auto simp: includes_str_iff startsWith_def)
  have "startsWith (tok @ rest) tok"
    by (simp add: startsWith_def)
  then show ?case
    using tok by (subst replaceAll_from.simps) simp
next
  case (Cons c p)
  from no_start_inside_Cons [OF Cons.prems]
  have 1: "\<not> startsWith (c # p @ tok @ rest) tok" and 2: "\<not> includes_str (p @ butlast tok) tok"
    by blast+
  show ?case
    using 1 Cons.IH [OF 2, of "b @ [c]"] by (subst replaceAll_from.simps) simp
qed

lemma replaceAll_from_none:
  "\<not> includes_str p tok \<Longrightarrow> replaceAll_from b p tok rep = p"
proof (induction p arbitrary: b)
  case Nil
  then show ?case by (subst replaceAll_from.simps) (simp add: startsWith_def)
next
  case (Cons c p)
  then show ?case by (subst replaceAll_from.simps) simp
qed

lemma replaceAll_from_pieces:
  "pieces_between tok ps \<Longrightarrow> \<not> has_dollar_pattern rep \<Longrightarrow>
   replaceAll_from b (join_with tok ps) tok rep = join_with rep ps"
proof (induction tok ps arbitrary: b rule: pieces_between.induct)
  case (1 tok)
  then show ?case by simp
next
  case (2 tok p)
  then show ?case by (simp add: replaceAll_from_none)
next
  case (3 tok p v va)
  then show ?case
    by (simp add: replaceAll_from_piece getSubstitution_plain)
qed


lemma includes_str_middle: "includes_str (pre @ tok @ post) tok"
proof -
  have "startsWith (drop (length pre) (pre @ tok @ post)) tok"
    by (simp add: startsWith_def)
  then show ?thesis
    by (rule includes_str_drop [rotated]) simp
qed

lemma replace_first:
  "\<not> includes_str (pre @ butlast tok) tok \<Longrightarrow>
   replace (pre @ tok @ post) tok rep = pre @ getSubstitution tok pre post rep @ post"
  using replace_from_first [of pre tok "[]" post rep] by (simp add: replace_def)

lemma replaceAll_pieces:
  "pieces_between tok ps \<Longrightarrow> \<not> has_dollar_pattern rep \<Longrightarrow>
   replaceAll (join_with tok ps) tok rep = join_with rep ps"
  by (simp add: replaceAll_def replaceAll_from_pieces)

lemma no_occurrence_pieces:
  "pieces_between tok ps \<Longrightarrow> \<not> includes_str (join_with tok ps) tok \<Longrightarrow>
   join_with rep ps = join_with tok ps"
proof (induction tok ps rule: pieces_between.induct)
  case (3 tok p v va)
  have "includes_str (p @ tok @ join_with tok (v # va)) tok"
    by (rule includes_str_middle)
  with 3 show ?case by simp
qed simp_all

text \<open>
  C8, as stated: the datetime placeholder is replaced by \<open>updatedAt\<close>, and with a template
  name supplied every template-name placeholder is replaced by it. This fails for the
  template name \<open>$$\<close>, which \<open>replaceAll\<close> expands to a single \<open>$\<close>; for the empty
  template name, for which the line is not changed; and for the timestamp \<open>$&\<close>, which
  \<open>replace\<close> expands to the matched token, so that the line stays as it is.
\<close>

theorem placeholder_counterexample:
  "updateReadme_line
     \<lparr>updatedAt = ascii ''2024-01-02 03:04:05'', domainCount = 1, domainSuffixCount = 2,
      total = 3, tempName = Some (ascii ''$$'')\<rparr>
     (ascii ''# ${{ TempName }}'') \<noteq> ascii ''# '' @ ascii ''$$'' \<and>
   updateReadme_line
     \<lparr>updatedAt = ascii ''2024-01-02 03:04:05'', domainCount = 1, domainSuffixCount = 2,
      total = 3, tempName = Some []\<rparr>
     (ascii ''a${{ TempName }}b'') \<noteq> ascii ''a'' @ [] @ ascii ''b'' \<and>
   updateReadme_line
     \<lparr>updatedAt = ascii ''$&'', domainCount = 1, domainSuffixCount = 2, total = 3,
      tempName = None\<rparr>
     (ascii ''at ${{ datetime }}'') \<noteq> ascii ''at '' @ ascii ''$&''"
  by code_simp

text \<open>
  C8, amended: on a line that does not start with the label and is no table row, (1) when
  the line holds the datetime placeholder, its first occurrence is replaced by
  \<open>updatedAt\<close>, provided \<open>updatedAt\<close> holds none of the patterns \<open>$$\<close>, \<open>$&\<close>, \<open>$`\<close>,
  \<open>$'\<close>; (2) otherwise, when a template name is given that is not empty and holds none of
  these patterns, every occurrence of the template-name placeholder, found from left to
  right, is replaced by the template name; (3) otherwise, that is without a datetime
  placeholder and without a template-name placeholder or with no or an empty template
  name, the line is returned unchanged.
\<close>

theorem placeholder_rules:
  "\<not> startsWith line updatedAtPrefix \<and> match_rows (tableMatchers p) line = None \<longrightarrow>
     (line = pre @ datetimeToken @ post \<and>
      \<not> includes_str (pre @ butlast datetimeToken) datetimeToken \<and>
      \<not> has_dollar_pattern (updatedAt p) \<longrightarrow>
        updateReadme_line p line = pre @ updatedAt p @ post) \<and>
     (\<not> includes_str line datetimeToken \<and> tempName p = Some t \<and> t \<noteq> [] \<and>
      \<not> has_dollar_pattern t \<and> line = join_with tempNameToken ps \<and>
      pieces_between tempNameToken ps \<longrightarrow>
        updateReadme_line p line = join_with t ps) \<and>
     (\<not> includes_str line datetimeToken \<and>
      (\<not> includes_str line tempNameToken \<or> tempName p = None \<or> tempName p = Some []) \<longrightarrow>
        updateReadme_line p line = line)"
proof (intro impI conjI)
  assume a: "\<not> startsWith line updatedAtPrefix \<and> match_rows (tableMatchers p) line = None"
  {
    assume b: "line = pre @ datetimeToken @ post \<and>
      \<not> includes_str (pre @ butlast datetimeToken) datetimeToken \<and>
      \<not> has_dollar_pattern (updatedAt p)"
    then have "includes_str line datetimeToken"
      by (simp add: includes_str_middle)
    moreover have "replace line datetimeToken (updatedAt p) = pre @ updatedAt p @ post"
      using b by (simp add: replace_first getSubstitution_plain)
    ultimately show "updateReadme_line p line = pre @ updatedAt p @ post"
      using a by (simp add: updateReadme_line_def)
  }
  {
    assume b: "\<not> includes_str line datetimeToken \<and> tempName p = Some t \<and> t \<noteq> [] \<and>
      \<not> has_dollar_pattern t \<and> line = join_with tempNameToken ps \<and>
      pieces_between tempNameToken ps"
    then have "replaceAll line tempNameToken t = join_with t ps"
      by (simp add: replaceAll_pieces)
    moreover have "\<not> includes_str line tempNameToken \<Longrightarrow> join_with t ps = line"
      using b by (simp add: no_occurrence_pieces)
    ultimately show "updateReadme_line p line = join_with t ps"
      using a b by (auto simp: updateReadme_line_def)
  }
  {
    assume b: "\<not> includes_str line datetimeToken \<and>
      (\<not> includes_str line tempNameToken \<or> tempName p = None \<or> tempName p = Some [])"
    then show "updateReadme_line p line = line"
      using a by (auto simp: updateReadme_line_def split: option.splits)
  }
qed


theorem placeholder_rules_witness:
  "updateReadme_line
     \<lparr>updatedAt = ascii ''2024-01-02 03:04:05'', domainCount = 1, domainSuffixCount = 2,
      total = 3, tempName = Some (ascii ''Foo'')\<rparr>
     (ascii ''at ${{ datetime }} / ${{ datetime }}'') =
     ascii ''at 2024-01-02 03:04:05 / ${{ datetime }}'' \<and>
   updateReadme_line
     \<lparr>updatedAt = ascii ''2024-01-02 03:04:05'', domainCount = 1, domainSuffixCount = 2,
      total = 3, tempName = Some (ascii ''Foo'')\<rparr>
     (ascii ''# ${{ TempName }} and ${{ TempName }}'') = ascii ''# Foo and Foo'' \<and>
   updateReadme_line
     \<lparr>updatedAt = ascii ''2024-01-02 03:04:05'', domainCount = 1, domainSuffixCount = 2,
      total = 3, tempName = Some (ascii ''Foo'')\<rparr>
     (ascii ''plain text'') = ascii ''plain text''"
proof -
  let ?p = "\<lparr>updatedAt = ascii ''2024-01-02 03:04:05'', domainCount = 1,
             domainSuffixCount = 2, total = 3, tempName = Some (ascii ''Foo'')\<rparr>"
  let ?l1 = "ascii ''at ${{ datetime }} / ${{ datetime }}''"
  let ?l2 = "ascii ''# ${{ TempName }} and ${{ TempName }}''"
  let ?l3 = "ascii ''plain text''"
  let ?ps = "[ascii ''# '', ascii '' and '', []]"
  have a1: "\<not> startsWith ?l1 updatedAtPrefix \<and> match_rows (tableMatchers ?p) ?l1 = None"
    by code_simp
  have b1: "?l1 = ascii ''at '' @ datetimeToken @ ascii '' / ${{ datetime }}'' \<and>
      \<not> includes_str (ascii ''at '' @ butlast datetimeToken) datetimeToken \<and>
      \<not> has_dollar_pattern (updatedAt ?p)"
    by code_simp
  have r1: "ascii ''at '' @ updatedAt ?p @ ascii '' / ${{ datetime }}'' =
      ascii ''at 2024-01-02 03:04:05 / ${{ datetime }}''"
    by code_simp
  have a2: "\<not> startsWith ?l2 updatedAtPrefix \<and> match_rows (tableMatchers ?p) ?l2 = None"
    by code_simp
  have b2: "\<not> includes_str ?l2 datetimeToken \<and> tempName ?p = Some (ascii ''Foo'') \<and>
      ascii ''Foo'' \<noteq> [] \<and> \<not> has_dollar_pattern (ascii ''Foo'') \<and>
      ?l2 = join_with tempNameToken ?ps \<and> pieces_between tempNameToken ?ps"
    by code_simp
  have r2: "join_with (ascii ''Foo'') ?ps = ascii ''# Foo and Foo''"
    by code_simp
  have a3: "\<not> startsWith ?l3 updatedAtPrefix \<and> match_rows (tableMatchers ?p) ?l3 = None"
    by code_simp
  have b3: "\<not> includes_str ?l3 datetimeToken \<and>
      (\<not> includes_str ?l3 tempNameToken \<or> tempName ?p = None \<or> tempName ?p = Some [])"
    by code_simp
  have 1: "updateReadme_line ?p ?l1 = ascii ''at '' @ updatedAt ?p @ ascii '' / ${{ datetime }}''"
    using placeholder_rules
            [of ?l1 ?p "ascii ''at ''" "ascii '' / ${{ datetime }}''" "[]" "[]"] a1 b1
    by blast
  have 2: "updateReadme_line ?p ?l2 = join_with (ascii ''Foo'') ?ps"
    using placeholder_rules [of ?l2 ?p "[]" "[]" "ascii ''Foo''" ?ps] a2 b2
    by blast
  have 3: "updateReadme_line ?p ?l3 = ?l3"
    using placeholder_rules [of ?l3 ?p "[]" "[]" "[]" "[]"] a3 b3
    by blast
  show ?thesis
    using 1 2 3 by (simp only: r1 r2 simp_thms)
qed

section \<open>Totality\<close>

text \<open>
  On strings the functions over untyped values reach no error and give what the typed
  functions give: every receiver of a method call is a string, and the three patterns
  handed to \<open>RegExp\<close> are well formed.
\<close>

lemma row_pattern_keys:
  "row_pattern (ascii ''DOMAIN'') =
     [0x5E, 0x5C, 0x7C, 0x5C, 0x73, 0x2A] @ ascii ''DOMAIN'' @
     [0x5C, 0x73, 0x2A, 0x5C, 0x7C, 0x5C, 0x73, 0x2A, 0x5C, 0x64, 0x2B, 0x5C, 0x73, 0x2A,
      0x5C, 0x7C, 0x24]"
  "row_pattern (ascii ''DOMAIN-SUFFIX'') =
     [0x5E, 0x5C, 0x7C, 0x5C, 0x73, 0x2A] @ ascii ''DOMAIN'' @ [0x5C, 0x2D] @ ascii ''SUFFIX'' @
     [0x5C, 0x73, 0x2A, 0x5C, 0x7C, 0x5C, 0x73, 0x2A, 0x5C, 0x64, 0x2B, 0x5C, 0x73, 0x2A,
      0x5C, 0x7C, 0x24]"
  "row_pattern (ascii ''TOTAL'') =
     [0x5E, 0x5C, 0x7C, 0x5C, 0x73, 0x2A] @ ascii ''TOTAL'' @
     [0x5C, 0x73, 0x2A, 0x5C, 0x7C, 0x5C, 0x73, 0x2A, 0x5C, 0x64, 0x2B, 0x5C, 0x73, 0x2A,
      0x5C, 0x7C, 0x24]"
  by code_simp+

lemma RegExp_keys:
  "RegExp_new (row_pattern (ascii ''DOMAIN'')) = Inr (row_regex (ascii ''DOMAIN''))"
  "RegExp_new (row_pattern (ascii ''DOMAIN-SUFFIX'')) = Inr (row_regex (ascii ''DOMAIN-SUFFIX''))"
  "RegExp_new (row_pattern (ascii ''TOTAL'')) = Inr (row_regex (ascii ''TOTAL''))"
  unfolding row_pattern_keys
  by (simp_all add: RegExp_new_def parse_items.simps row_regex_def lit_def
        ascii_def isSyntaxCharacter_def)

lemma isRuleLine_js_string: "isRuleLine_js (JString l) = Inr (isRuleLine l)"
  by (simp add: isRuleLine_js_def isRuleLine_def Let_def)

lemma count_line_js_string: "count_line_js (JString l) st = Inr (count_line l st)"
  by (simp add: count_line_js_def count_line_def isRuleLine_js_string Let_def)

lemma fold_js_strings:
  "(\<And>l st. f (JString l) (\<alpha> st) = Inr (\<alpha> (g l st))) \<Longrightarrow>
   fold_js f (map JString ls) (\<alpha> st) = Inr (\<alpha> (fold g ls st))"
  by (induction ls arbitrary: st) simp_all

lemma map_js_strings:
  "(\<And>l. f (JString l) = Inr (JString (g l))) \<Longrightarrow>
   map_js f (map JString ls) = Inr (map JString (map g ls))"
  by (induction ls) simp_all

lemma findIndex_js_strings:
  "(\<And>l. P (JString l) = Inr (Q l)) \<Longrightarrow>
   findIndex_js P (map JString ls) = Inr (findIndex Q ls)"
  by (induction ls) (simp_all add: Let_def)

lemma join_js_strings: "join_js (map JString ls) = join_lines ls"
  by (simp add: join_js_def comp_def)

lemma parseCountsFromList_js_string:
  "parseCountsFromList_js (JString s) = Inr (parseCountsFromList s)"
  unfolding parseCountsFromList_js_def parseCountsFromList_def split_js_def
  using fold_js_strings [of count_line_js "\<lambda>st. st" count_line "split_lines s" "([], 0)"]
  by (simp add: count_line_js_string)


lemma js_params_of_fields:
  "updatedAt_js (js_params_of p) = JString (updatedAt p)"
  "domainCount_js (js_params_of p) = JNumber (domainCount p)"
  "domainSuffixCount_js (js_params_of p) = JNumber (domainSuffixCount p)"
  "total_js (js_params_of p) = JNumber (total p)"
  "tempName_js (js_params_of p) = (case tempName p of None \<Rightarrow> JUndefined | Some t \<Rightarrow> JString t)"
  by (simp_all add: js_params_of_def)

lemma scan_js_of_fields:
  "out_js (scan_js_of s) = map JString (out s)"
  "hasUpdated_js (scan_js_of s) = hasUpdated s"
  "hasDomain_js (scan_js_of s) = hasDomain s"
  "hasDomainSuffix_js (scan_js_of s) = hasDomainSuffix s"
  "hasTotal_js (scan_js_of s) = hasTotal s"
  by (simp_all add: scan_js_of_def)

lemma scan_line_js_string:
  "scan_line_js (js_params_of p) (JString l) (scan_js_of s) = Inr (scan_js_of (scan_line p l s))"
  by (simp add: scan_line_js_def scan_line_def scan_js_of_def js_params_of_fields)

lemma scan_js_string:
  "fold_js (scan_line_js (js_params_of p)) (map JString ls)
     \<lparr>out_js = [], hasUpdated_js = False, hasDomain_js = False, hasDomainSuffix_js = False,
      hasTotal_js = False\<rparr> =
   Inr (scan_js_of (fold (scan_line p) ls
     \<lparr>out = [], hasUpdated = False, hasDomain = False, hasDomainSuffix = False,
      hasTotal = False\<rparr>))"
proof -
  have "\<lparr>out_js = [], hasUpdated_js = False, hasDomain_js = False, hasDomainSuffix_js = False,
      hasTotal_js = False\<rparr> =
    scan_js_of \<lparr>out = [], hasUpdated = False, hasDomain = False, hasDomainSuffix = False,
      hasTotal = False\<rparr>"
    by (simp add: scan_js_of_def)
  then show ?thesis
    using fold_js_strings [of "scan_line_js (js_params_of p)" scan_js_of "scan_line p" ls]
    by (simp only: scan_line_js_string)
qed

lemma splice_insert_map: "splice_insert (map f xs) k (f x) = map f (splice_insert xs k x)"
  by (simp add: splice_insert_def Let_def take_map drop_map)

lemma insertHeaderIfMissing_js_string:
  "insertHeaderIfMissing_js (map JString ls, False) tag (JString x) =
   Inr (map JString (fst (insertHeaderIfMissing (ls, False) tag x)), True)"
proof -
  have "findIndex_js (\<lambda>l. bind_js (on_string l trim) (\<lambda>t. Inr (length t > 0))) (map JString ls) =
        Inr (findIndex (\<lambda>l. length (trim l) > 0) ls)"
    by (rule findIndex_js_strings) simp
  then show ?thesis
    by (simp add: insertHeaderIfMissing_js_def insertHeaderIfMissing_def Let_def
          splice_insert_map)
qed

lemma updateListHeader_js_string:
  "updateListHeader_js (JString s) (js_params_of p) = Inr (updateListHeader s p)"
proof -
  define S where "S = fold (scan_line p) (split_lines s)
     \<lparr>out = [], hasUpdated = False, hasDomain = False, hasDomainSuffix = False,
      hasTotal = False\<rparr>"
  define o1 where "o1 = (if \<not> hasUpdated S
     then fst (insertHeaderIfMissing (out S, False) (ascii ''UPDATED'')
                 (ascii ''# UPDATED: '' @ updatedAt p))
     else out S)"
  define o2 where "o2 = (if \<not> hasDomain S
     then splice_insert o1 2 (ascii ''# DOMAIN: '' @ String_of (domainCount p)) else o1)"
  define o3 where "o3 = (if \<not> hasDomainSuffix S
     then splice_insert o2 3 (ascii ''# DOMAIN-SUFFIX: '' @ String_of (domainSuffixCount p))
     else o2)"
  define o4 where "o4 = (if \<not> hasTotal S
     then splice_insert o3 4 (ascii ''# TOTAL: '' @ String_of (total p)) else o3)"
  have pure: "updateListHeader s p = join_lines o4"
    unfolding updateListHeader_def updateListHeader_lines_def Let_def o4_def o3_def o2_def o1_def
      S_def
    by (rule refl)
  have d1: "(if \<not> hasUpdated S
      then bind_js (insertHeaderIfMissing_js (map JString (out S), False) (ascii ''UPDATED'')
                      (JString (ascii ''# UPDATED: '' @ updatedAt p)))
             (\<lambda>r. Inr (fst r))
      else Inr (map JString (out S))) = Inr (map JString o1)"
    by (simp add: o1_def insertHeaderIfMissing_js_string)
  have d2: "(if \<not> hasDomain S
      then splice_insert (map JString o1) 2
             (JString (ascii ''# DOMAIN: '' @ String_of (domainCount p)))
      else map JString o1) = map JString o2"
    by (simp add: o2_def splice_insert_map)
  have d3: "(if \<not> hasDomainSuffix S
      then splice_insert (map JString o2) 3
             (JString (ascii ''# DOMAIN-SUFFIX: '' @ String_of (domainSuffixCount p)))
      else map JString o2) = map JString o3"
    by (simp add: o3_def splice_insert_map)
  have d4: "(if \<not> hasTotal S
      then splice_insert (map JString o3) 4
             (JString (ascii ''# TOTAL: '' @ String_of (total p)))
      else map JString o3) = map JString o4"
    by (simp add: o4_def splice_insert_map)
  have "updateListHeader_js (JString s) (js_params_of p) = Inr (join_js (map JString o4))"
    unfolding updateListHeader_js_def split_js_def on_string.simps bind_js.simps
      scan_js_string S_def [symmetric] scan_js_of_fields js_params_of_fields js_ToString.simps
      d1 Let_def d2 d3 d4
    by (rule refl)
  then show ?thesis
    by (simp only: pure join_js_strings)
qed

lemma match_rows_js_string:
  "match_rows_js (tableMatchers_js (js_params_of p)) (JString l) =
   Inr (match_rows (tableMatchers p) l)"
  by (simp add: tableMatchers_js_def tableMatchers_def js_params_of_fields RegExp_keys
        render_row_def)

lemma updateReadme_line_js_string:
  "updateReadme_line_js (js_params_of p) (JString l) = Inr (JString (updateReadme_line p l))"
  unfolding updateReadme_line_js_def updateReadme_line_def match_rows_js_string
  by (simp add: js_params_of_fields split: option.splits)

lemma updateReadme_js_string:
  "updateReadme_js (JString s) (js_params_of p) = Inr (updateReadme s p)"
proof -
  have "map_js (updateReadme_line_js (js_params_of p)) (map JString (split_lines s)) =
        Inr (map JString (map (updateReadme_line p) (split_lines s)))"
    by (rule map_js_strings) (rule updateReadme_line_js_string)
  then show ?thesis
    unfolding updateReadme_js_def updateReadme_def split_js_def on_string.simps
    by (simp only: bind_js.simps join_js_strings)
qed

text \<open>
  C9: on every string, with a string as timestamp, integers as counts and a string or
  nothing as template name, each of the three functions returns a result, the one computed
  by the typed function, and throws nothing, although every method call and every
  construction of a regular expression in them can throw; on a value that is no string
  they throw the TypeError.
\<close>

theorem core_functions_total:
  "parseCountsFromList_js (JString s) = Inr (parseCountsFromList s) \<and>
   updateListHeader_js (JString s) (js_params_of q) = Inr (updateListHeader s q) \<and>
   updateReadme_js (JString s) (js_params_of q) = Inr (updateReadme s q) \<and>
   parseCountsFromList_js JUndefined = Inl TypeError \<and>
   updateListHeader_js JNull (js_params_of q) = Inl TypeError \<and>
   updateReadme_js (JNumber n) (js_params_of q) = Inl TypeError"
proof (intro conjI)
  show "parseCountsFromList_js (JString s) = Inr (parseCountsFromList s)"
    by (rule parseCountsFromList_js_string)
  show "updateListHeader_js (JString s) (js_params_of q) = Inr (updateListHeader s q)"
    by (rule updateListHeader_js_string)
  show "updateReadme_js (JString s) (js_params_of q) = Inr (updateReadme s q)"
    by (rule updateReadme_js_string)
  show "parseCountsFromList_js JUndefined = Inl TypeError"
    by (simp add: parseCountsFromList_js_def split_js_def)
  show "updateListHeader_js JNull (js_params_of q) = Inl TypeError"
    by (simp add: updateListHeader_js_def split_js_def)
  show "updateReadme_js (JNumber n) (js_params_of q) = Inl TypeError"
    by (simp add: updateReadme_js_def split_js_def)
qed

end
